theory Spec2Isabelle
  imports Main "HOL-Library.Word"
begin

text \<open>
  The package \<^verbatim>\<open>graceful\<close> (graceful.go) wraps \<^verbatim>\<open>http.Server\<close> so that a shutdown
  stops the listener, lets the connections in flight finish and, after an optional
  timeout, closes those that remain. This theory embeds \<^verbatim>\<open>Server.Serve\<close> as a
  transition system over the goroutines it starts, and \<^verbatim>\<open>ListenAndServeTLS\<close> as a
  function of the results of the library calls it makes; net/http, the operating
  system and the caller are the environment.
\<close>

section \<open>Data model of graceful.go\<close>

text \<open>
  A connection handle (\<^verbatim>\<open>net.Conn\<close>) is used by the package only as a map key, a
  channel only through its identity, and an \<^verbatim>\<open>error\<close> only as a value that is
  passed on, so all three are opaque identifiers.
\<close>

type_synonym conn = nat
type_synonym chan_id = nat
type_synonym error = string

text \<open>The constants of \<^verbatim>\<open>http.ConnState\<close>, in the order net/http declares them.\<close>

datatype http_ConnState = StateNew | StateActive | StateIdle | StateHijacked | StateClosed

text \<open>
  \<^verbatim>\<open>type Server struct\<close> (graceful.go, lines 24-44). \<^verbatim>\<open>Timeout\<close> is a
  \<^verbatim>\<open>time.Duration\<close>, a signed 64-bit integer. Of the three optional fields
  \<^verbatim>\<open>ConnState\<close>, \<^verbatim>\<open>Signal\<close> and \<^verbatim>\<open>Cancel\<close> the code reads only whether
  they are nil, so each is the truth value of \<^verbatim>\<open>field != nil\<close>.
\<close>

record Server =
  Timeout :: "64 word"
  ConnState :: bool
  Signal :: bool
  Cancel :: bool

subsection \<open>The connection tracker (lines 155-180)\<close>

text \<open>
  The local variables of the goroutine: \<^verbatim>\<open>var done chan struct{}\<close> (nil until a
  stop request arrives) and \<^verbatim>\<open>connections := map[net.Conn]struct{}{}\<close>, a set of
  handles.
\<close>

record tracker =
  done_chan :: "chan_id option"
  connections :: "conn set"

text \<open>
  What the \<^verbatim>\<open>select\<close> of the loop can receive: a handle from \<^verbatim>\<open>add\<close>, a handle
  from \<^verbatim>\<open>remove\<close>, a notifier channel from \<^verbatim>\<open>stop\<close>, a token from \<^verbatim>\<open>kill\<close>.
\<close>

datatype message = Add conn | Remove conn | Stop chan_id | Kill

text \<open>
  How the chosen case ends: the loop goes round again, or the goroutine runs
  \<^verbatim>\<open>done <- struct{}{}; return\<close>, or it closes the given handles and returns.
\<close>

datatype outcome = Continue | Send_done chan_id | Close_all "conn set"

fun tracker_select :: "message \<Rightarrow> tracker \<Rightarrow> tracker \<times> outcome" where
  "tracker_select (Add c) t = (t\<lparr>connections := insert c (connections t)\<rparr>, Continue)"
| "tracker_select (Remove c) t =
     (let t' = t\<lparr>connections := connections t - {c}\<rparr> in
      case done_chan t' of
        Some d \<Rightarrow> if connections t' = {} then (t', Send_done d) else (t', Continue)
      | None \<Rightarrow> (t', Continue))"
| "tracker_select (Stop d) t =
     (let t' = t\<lparr>done_chan := Some d\<rparr> in
      if connections t' = {} then (t', Send_done d) else (t', Continue))"
| "tracker_select Kill t = (t, Close_all (connections t))"

subsection \<open>The ConnState hook (lines 139-150)\<close>

text \<open>The \<^verbatim>\<open>switch state\<close>: which channel send, if any, the hook performs first.\<close>

fun forward :: "http_ConnState \<Rightarrow> conn \<Rightarrow> message option" where
  "forward StateActive c = Some (Add c)"
| "forward StateClosed c = Some (Remove c)"
| "forward StateIdle c = Some (Remove c)"
| "forward StateNew c = None"
| "forward StateHijacked c = None"

subsection \<open>Serve as a system of goroutines (lines 134-229)\<close>

text \<open>
  Serve runs the calling goroutine, the tracker goroutine, the watcher goroutine of
  lines 193-206 and, inside net/http, one goroutine per connection that calls the
  installed hook. Each has a program counter that names the statement it is about to
  execute; a goroutine blocked in a channel operation stays at its counter until the
  partner is ready. All channels of Serve (\<^verbatim>\<open>add\<close>, \<^verbatim>\<open>remove\<close>, \<^verbatim>\<open>stop\<close>,
  \<^verbatim>\<open>kill\<close>, \<^verbatim>\<open>done\<close>) are unbuffered, so a send and its receive are one joint
  step.
\<close>

datatype main_pc =
    M_Serve                 \<comment> \<open>line 209, inside \<^verbatim>\<open>srv.Server.Serve(listener)\<close>\<close>
  | M_close_stopListener    \<comment> \<open>line 213\<close>
  | M_send_stop             \<comment> \<open>lines 216-217, \<^verbatim>\<open>stop <- done\<close>\<close>
  | M_wait_done             \<comment> \<open>lines 219-227, the \<^verbatim>\<open>select\<close> or the bare \<^verbatim>\<open><-done\<close>\<close>
  | M_send_kill             \<comment> \<open>line 223, \<^verbatim>\<open>kill <- struct{}{}\<close>\<close>
  | M_returned              \<comment> \<open>line 228, \<^verbatim>\<open>return err\<close> has run\<close>

datatype tracker_pc =
    T_select                \<comment> \<open>line 159\<close>
  | T_send_done chan_id     \<comment> \<open>lines 165 and 170, \<^verbatim>\<open>done <- struct{}{}\<close>\<close>
  | T_close_all "conn set"  \<comment> \<open>lines 174-176, the loop over the handles to close\<close>
  | T_returned

datatype watcher_pc =
    W_select                \<comment> \<open>line 194\<close>
  | W_signal_Stop           \<comment> \<open>line 201\<close>
  | W_close_sig             \<comment> \<open>line 202\<close>
  | W_SetKeepAlivesEnabled  \<comment> \<open>line 204\<close>
  | W_listener_Close        \<comment> \<open>line 205\<close>
  | W_returned

datatype hook_pc =
    H_switch                \<comment> \<open>line 140\<close>
  | H_hook                  \<comment> \<open>line 147\<close>
  | H_returned

datatype channel = Ch_add | Ch_remove | Ch_stop | Ch_kill | Ch_done | Ch_sig | Ch_cancel
  | Ch_stopListener

text \<open>
  The calls with an effect outside Serve, logged in the order they happen. The listener
  receives a \<^verbatim>\<open>Close\<close> call from two places: from the watcher, and from
  \<^verbatim>\<open>http.Server.Serve\<close>, which closes the listener it was given before it returns
  (``Serve always returns a non-nil error and closes l'').
\<close>

datatype event =
    Signal_Notify                      \<comment> \<open>line 188\<close>
  | Signal_Stop                        \<comment> \<open>line 201\<close>
  | Close_chan channel                 \<comment> \<open>lines 202 and 213\<close>
  | SetKeepAlivesEnabled_false         \<comment> \<open>line 204\<close>
  | Listener_Close                     \<comment> \<open>line 205, the watcher's \<^verbatim>\<open>listener.Close()\<close>\<close>
  | Http_Serve_Close                   \<comment> \<open>line 209, net/http closing the listener\<close>
  | Conn_Close "conn set"              \<comment> \<open>lines 174-176, one \<^verbatim>\<open>k.Close()\<close> per member\<close>
  | Hook_called conn http_ConnState    \<comment> \<open>line 148, the caller's observer\<close>

record gstate =
  main :: main_pc
  err :: "error option"
  trk :: tracker_pc
  tracker :: tracker
  watcher :: watcher_pc
  hooks :: "(conn \<times> http_ConnState \<times> hook_pc) list"
  stopListener_closed :: bool
  sig_ready :: bool
  sig_closed :: bool
  cancel_ready :: bool
  trace :: "event list"

text \<open>
  Lines 182-189: \<^verbatim>\<open>sig\<close> is \<^verbatim>\<open>srv.Signal\<close>, replaced by a fresh channel
  registered with \<^verbatim>\<open>signal.Notify\<close> when both \<^verbatim>\<open>srv.Signal\<close> and
  \<^verbatim>\<open>srv.Cancel\<close> are nil. The value is \<^verbatim>\<open>sig != nil\<close> from line 190 on.
\<close>

definition sig_in_use :: "Server \<Rightarrow> bool" where
  "sig_in_use srv = (if Signal srv then True else if Cancel srv then False else True)"

text \<open>The one notifier channel Serve creates (line 216).\<close>

definition main_done :: chan_id where
  "main_done = 0"

text \<open>
  The state when the calling goroutine enters \<^verbatim>\<open>srv.Server.Serve(listener)\<close>: hook
  installed, tracker and watcher started, nothing received yet.
\<close>

definition init :: "Server \<Rightarrow> gstate" where
  "init srv =
     \<lparr>main = M_Serve, err = None, trk = T_select,
      tracker = \<lparr>done_chan = None, connections = {}\<rparr>,
      watcher = W_select, hooks = [],
      stopListener_closed = False, sig_ready = False, sig_closed = False,
      cancel_ready = False,
      trace = (if Signal srv then [] else if Cancel srv then [] else [Signal_Notify])\<rparr>"

text \<open>The three cases of the watcher's \<^verbatim>\<open>select\<close> (lines 195-197).\<close>

datatype source = Src_stopListener | Src_sig | Src_cancel

text \<open>
  A receive from a nil channel never becomes ready; a receive from the closed
  \<^verbatim>\<open>stopListener\<close> is ready at once.
\<close>

fun ready :: "Server \<Rightarrow> source \<Rightarrow> gstate \<Rightarrow> bool" where
  "ready srv Src_stopListener s = stopListener_closed s"
| "ready srv Src_sig s = (sig_in_use srv \<and> sig_ready s)"
| "ready srv Src_cancel s = (Cancel srv \<and> cancel_ready s)"

text \<open>
  Where the tracker goroutine stands once it has received a message: back at the
  \<^verbatim>\<open>select\<close>, at the send on \<^verbatim>\<open>done\<close>, or at the loop that closes the handles.
\<close>

fun after_select :: "outcome \<Rightarrow> gstate \<Rightarrow> gstate" where
  "after_select Continue s = s"
| "after_select (Send_done d) s = s\<lparr>trk := T_send_done d\<rparr>"
| "after_select (Close_all cs) s = s\<lparr>trk := T_close_all cs\<rparr>"

definition deliver :: "message \<Rightarrow> gstate \<Rightarrow> gstate" where
  "deliver m s =
     (case tracker_select m (tracker s) of (t', out) \<Rightarrow> after_select out (s\<lparr>tracker := t'\<rparr>))"

text \<open>
  The scheduler's and the environment's choices. The first five are the environment:
  net/http reporting a state change of a connection, net/http's serve loop returning,
  a value arriving on \<^verbatim>\<open>sig\<close>, the caller firing \<^verbatim>\<open>Cancel\<close>, the timer of
  \<^verbatim>\<open>time.After\<close> firing. The others let one goroutine take its next step, or two
  of them meet on an unbuffered channel. When the kill message is received the send at
  line 223 is over and Serve returns; the tracker's loop over the handles is a step of
  its own, \<^verbatim>\<open>Tracker_close\<close>, which carries what each \<^verbatim>\<open>k.Close()\<close> returns. The caller fires \<^verbatim>\<open>Cancel\<close> by closing it or sending on
  it, which the watcher cannot tell apart; on \<^verbatim>\<open>Signal\<close> values only arrive (the
  caller does not close it), and none arrives once the watcher has closed it. Time is
  not measured: the timer may fire at any moment of the wait when \<^verbatim>\<open>Timeout > 0\<close>.
\<close>

datatype label =
    Engine_event conn http_ConnState
  | Engine_returns "error option"
  | Os_signal
  | Caller_cancel
  | Timer
  | Main_step
  | Stop_rendezvous
  | Done_rendezvous
  | Kill_rendezvous
  | Tracker_close "conn \<Rightarrow> error option"
  | Watcher_select source
  | Watcher_step
  | Hook_send nat
  | Hook_step nat

definition watcher_step :: "gstate \<Rightarrow> gstate option" where
  "watcher_step s =
     (case watcher s of
        W_signal_Stop \<Rightarrow> Some (s\<lparr>watcher := W_close_sig, trace := trace s @ [Signal_Stop]\<rparr>)
      | W_close_sig \<Rightarrow>
          Some (s\<lparr>watcher := W_SetKeepAlivesEnabled, sig_closed := True,
                 trace := trace s @ [Close_chan Ch_sig]\<rparr>)
      | W_SetKeepAlivesEnabled \<Rightarrow>
          Some (s\<lparr>watcher := W_listener_Close,
                 trace := trace s @ [SetKeepAlivesEnabled_false]\<rparr>)
      | W_listener_Close \<Rightarrow>
          Some (s\<lparr>watcher := W_returned, trace := trace s @ [Listener_Close]\<rparr>)
      | _ \<Rightarrow> None)"

text \<open>
  Lines 174-177: every handle is closed, what \<^verbatim>\<open>k.Close()\<close> returns is dropped, and
  the goroutine returns.
\<close>

definition tracker_close :: "(conn \<Rightarrow> error option) \<Rightarrow> gstate \<Rightarrow> gstate option" where
  "tracker_close Close s =
     (case trk s of
        T_close_all cs \<Rightarrow>
          (let errs = Close ` cs
           in Some (s\<lparr>trk := T_returned, trace := trace s @ [Conn_Close cs]\<rparr>))
      | _ \<Rightarrow> None)"

definition hook_step :: "Server \<Rightarrow> nat \<Rightarrow> gstate \<Rightarrow> gstate option" where
  "hook_step srv i s =
     (if i < length (hooks s) then
        (case hooks s ! i of
           (c, st, H_switch) \<Rightarrow>
             (case forward st c of
                None \<Rightarrow> Some (s\<lparr>hooks := (hooks s)[i := (c, st, H_hook)]\<rparr>)
              | Some m \<Rightarrow> None)
         | (c, st, H_hook) \<Rightarrow>
             Some (s\<lparr>hooks := (hooks s)[i := (c, st, H_returned)],
                    trace := (if ConnState srv then trace s @ [Hook_called c st]
                              else trace s)\<rparr>)
         | (c, st, H_returned) \<Rightarrow> None)
      else None)"

definition hook_send :: "nat \<Rightarrow> gstate \<Rightarrow> gstate option" where
  "hook_send i s =
     (if i < length (hooks s) \<and> trk s = T_select then
        (case hooks s ! i of
           (c, st, H_switch) \<Rightarrow>
             (case forward st c of
                None \<Rightarrow> None
              | Some m \<Rightarrow> Some (deliver m (s\<lparr>hooks := (hooks s)[i := (c, st, H_hook)]\<rparr>)))
         | _ \<Rightarrow> None)
      else None)"

text \<open>
  One step of the system; \<^verbatim>\<open>None\<close> when the chosen goroutine is blocked or has
  nothing of that kind to do.
\<close>

fun step :: "Server \<Rightarrow> label \<Rightarrow> gstate \<Rightarrow> gstate option" where
  "step srv (Engine_event c st) s = Some (s\<lparr>hooks := hooks s @ [(c, st, H_switch)]\<rparr>)"
| "step srv (Engine_returns e) s =
     (if main s = M_Serve
      then Some (s\<lparr>main := M_close_stopListener, err := e,
                  trace := trace s @ [Http_Serve_Close]\<rparr>)
      else None)"
| "step srv Os_signal s =
     (if sig_in_use srv \<and> \<not> sig_closed s then Some (s\<lparr>sig_ready := True\<rparr>) else None)"
| "step srv Caller_cancel s =
     (if Cancel srv then Some (s\<lparr>cancel_ready := True\<rparr>) else None)"
| "step srv Timer s =
     (if main s = M_wait_done \<and> 0 < sint (Timeout srv)
      then Some (s\<lparr>main := M_send_kill\<rparr>) else None)"
| "step srv Main_step s =
     (if main s = M_close_stopListener
      then Some (s\<lparr>main := M_send_stop, stopListener_closed := True,
                  trace := trace s @ [Close_chan Ch_stopListener]\<rparr>)
      else None)"
| "step srv Stop_rendezvous s =
     (if main s = M_send_stop \<and> trk s = T_select
      then Some (deliver (Stop main_done) (s\<lparr>main := M_wait_done\<rparr>)) else None)"
| "step srv Done_rendezvous s =
     (if main s = M_wait_done \<and> trk s = T_send_done main_done
      then Some (s\<lparr>main := M_returned, trk := T_returned\<rparr>) else None)"
| "step srv Kill_rendezvous s =
     (if main s = M_send_kill \<and> trk s = T_select
      then Some (deliver Kill (s\<lparr>main := M_returned\<rparr>)) else None)"
| "step srv (Tracker_close Close) s = tracker_close Close s"
| "step srv (Watcher_select src) s =
     (if watcher s = W_select \<and> ready srv src s
      then Some (s\<lparr>watcher := (if sig_in_use srv then W_signal_Stop
                                else W_SetKeepAlivesEnabled),
                  sig_ready := (if src = Src_sig then False else sig_ready s)\<rparr>)
      else None)"
| "step srv Watcher_step s = watcher_step s"
| "step srv (Hook_send i) s = hook_send i s"
| "step srv (Hook_step i) s = hook_step srv i s"

text \<open>A schedule: the labels taken one after the other, \<^verbatim>\<open>None\<close> if one is not enabled.\<close>

fun run :: "Server \<Rightarrow> label list \<Rightarrow> gstate \<Rightarrow> gstate option" where
  "run srv [] s = Some s"
| "run srv (l # ls) s = (case step srv l s of None \<Rightarrow> None | Some s' \<Rightarrow> run srv ls s')"

subsection \<open>ListenAndServeTLS (lines 92-122)\<close>

text \<open>
  Of \<^verbatim>\<open>tls.Config\<close> the function reads \<^verbatim>\<open>NextProtos\<close> (a slice, nil when unset)
  and writes \<^verbatim>\<open>NextProtos\<close> and \<^verbatim>\<open>Certificates\<close>; every other field is copied
  as it is. Of \<^verbatim>\<open>http.Server\<close> it reads \<^verbatim>\<open>Addr\<close> and \<^verbatim>\<open>TLSConfig\<close> (a pointer,
  nil when unset).
\<close>

type_synonym certificate = nat
type_synonym listener = nat

record tls_Config =
  NextProtos :: "string list option"
  Certificates :: "certificate list"
  other_fields :: nat

record http_Server =
  Addr :: string
  TLSConfig :: "tls_Config option"

text \<open>
  The two library calls that can fail, \<^verbatim>\<open>tls.LoadX509KeyPair\<close> and \<^verbatim>\<open>net.Listen\<close>,
  with the error on the left.
\<close>

record world =
  LoadX509KeyPair :: "string \<Rightarrow> string \<Rightarrow> error + certificate"
  Listen :: "string \<Rightarrow> string \<Rightarrow> error + listener"

text \<open>The calls ListenAndServeTLS makes, in order, and how it ends.\<close>

datatype call =
    Call_LoadX509KeyPair string string
  | Call_Listen string string
  | Call_NewListener listener tls_Config
  | Call_Serve Server listener tls_Config

datatype result =
    Return error      \<comment> \<open>\<^verbatim>\<open>return err\<close>, lines 112 and 117\<close>
  | Return_Serve      \<comment> \<open>\<^verbatim>\<open>return srv.Serve(tlsListener)\<close>, line 121\<close>

definition ListenAndServeTLS ::
  "world \<Rightarrow> http_Server \<Rightarrow> string \<Rightarrow> string \<Rightarrow> 64 word \<Rightarrow> call list \<times> result" where
  "ListenAndServeTLS w server certFile keyFile timeout =
     (let srv = \<lparr>Timeout = timeout, ConnState = False, Signal = False, Cancel = False\<rparr>;
          addr = (if Addr server = [] then '':https'' else Addr server);
          config = (case TLSConfig server of
                      None \<Rightarrow> \<lparr>NextProtos = None, Certificates = [], other_fields = 0\<rparr>
                    | Some c \<Rightarrow> c);
          config = (if NextProtos config = None
                    then config\<lparr>NextProtos := Some [''http/1.1'']\<rparr> else config)
      in case LoadX509KeyPair w certFile keyFile of
           Inl e \<Rightarrow> ([Call_LoadX509KeyPair certFile keyFile], Return e)
         | Inr cert \<Rightarrow>
             (let config = config\<lparr>Certificates := [cert]\<rparr> in
              case Listen w ''tcp'' addr of
                Inl e \<Rightarrow>
                  ([Call_LoadX509KeyPair certFile keyFile, Call_Listen ''tcp'' addr],
                   Return e)
              | Inr conn \<Rightarrow>
                  ([Call_LoadX509KeyPair certFile keyFile, Call_Listen ''tcp'' addr,
                    Call_NewListener conn config, Call_Serve srv conn config],
                   Return_Serve)))"

section \<open>Example servers, schedules and states\<close>

text \<open>
  The servers of the package's tests: \<^verbatim>\<open>runServer(killTime, ..., c, nil)\<close> with an
  observer, \<^verbatim>\<open>runServer(0, ..., nil, c2)\<close>, \<^verbatim>\<open>runServer(killTime, ..., c, c2)\<close>,
  one with a timeout of one nanosecond, and one with a negative timeout and neither
  channel. \<^verbatim>\<open>killTime\<close> is 50 ms.
\<close>

definition srv_test :: Server where
  "srv_test = \<lparr>Timeout = 50000000, ConnState = True, Signal = True, Cancel = False\<rparr>"

definition srv_cancel :: Server where
  "srv_cancel = \<lparr>Timeout = 0, ConnState = False, Signal = False, Cancel = True\<rparr>"

definition srv_both :: Server where
  "srv_both = \<lparr>Timeout = 50000000, ConnState = False, Signal = True, Cancel = True\<rparr>"

definition srv_1ns :: Server where
  "srv_1ns = \<lparr>Timeout = 1, ConnState = False, Signal = True, Cancel = False\<rparr>"

definition srv_negative :: Server where
  "srv_negative = \<lparr>Timeout = - 1, ConnState = False, Signal = False, Cancel = False\<rparr>"

text \<open>Draining with connection 1 still active.\<close>

definition st_wait :: gstate where
  "st_wait =
     \<lparr>main = M_wait_done, err = Some ''accept'', trk = T_select,
      tracker = \<lparr>done_chan = Some 0, connections = {1}\<rparr>, watcher = W_select,
      hooks = [(1, StateActive, H_returned)], stopListener_closed = True,
      sig_ready = False, sig_closed = False, cancel_ready = False,
      trace = [Hook_called 1 StateActive, Http_Serve_Close, Close_chan Ch_stopListener]\<rparr>"

text \<open>Serve has returned after a drain with no connection; the watcher has not run.\<close>

definition st_returned :: gstate where
  "st_returned =
     \<lparr>main = M_returned, err = Some ''accept'', trk = T_returned,
      tracker = \<lparr>done_chan = Some 0, connections = {}\<rparr>, watcher = W_select,
      hooks = [], stopListener_closed = True, sig_ready = False,
      sig_closed = False, cancel_ready = False,
      trace = [Http_Serve_Close, Close_chan Ch_stopListener]\<rparr>"

text \<open>
  Connection 1 becomes active, a signal arrives and the watcher shuts the listener, the
  serve loop returns, the timeout fires and the tracker is killed; then net/http
  reports that connection 1 is closed.
\<close>

definition kill_schedule :: "label list" where
  "kill_schedule =
     [Engine_event 1 StateNew, Hook_step 0, Hook_step 0,
      Engine_event 1 StateActive, Hook_send 1, Hook_step 1,
      Os_signal, Watcher_select Src_sig, Watcher_step, Watcher_step, Watcher_step, Watcher_step,
      Engine_returns (Some ''accept''), Main_step, Stop_rendezvous, Timer,
      Kill_rendezvous, Tracker_close (\<lambda>k. None),
      Engine_event 1 StateClosed]"

definition st_killed :: gstate where
  "st_killed =
     \<lparr>main = M_returned, err = Some ''accept'', trk = T_returned,
      tracker = \<lparr>done_chan = Some 0, connections = {1}\<rparr>, watcher = W_returned,
      hooks = [(1, StateNew, H_returned), (1, StateActive, H_returned),
               (1, StateClosed, H_switch)],
      stopListener_closed = True, sig_ready = False, sig_closed = True,
      cancel_ready = False,
      trace = [Hook_called 1 StateNew, Hook_called 1 StateActive, Signal_Stop,
               Close_chan Ch_sig, SetKeepAlivesEnabled_false, Listener_Close,
               Http_Serve_Close, Close_chan Ch_stopListener, Conn_Close {1}]\<rparr>"

text \<open>
  Signal and Cancel both supplied and both fired before the watcher ran; the watcher has
  finished.
\<close>

definition st_both :: gstate where
  "st_both =
     \<lparr>main = M_Serve, err = None, trk = T_select,
      tracker = \<lparr>done_chan = None, connections = {}\<rparr>, watcher = W_returned,
      hooks = [], stopListener_closed = False, sig_ready = True,
      sig_closed = True, cancel_ready = True,
      trace = [Signal_Stop, Close_chan Ch_sig, SetKeepAlivesEnabled_false, Listener_Close]\<rparr>"

text \<open>Only Cancel supplied, fired, and the watcher has finished.\<close>

definition st_cancelled :: gstate where
  "st_cancelled =
     \<lparr>main = M_Serve, err = None, trk = T_select,
      tracker = \<lparr>done_chan = None, connections = {}\<rparr>, watcher = W_returned,
      hooks = [], stopListener_closed = False, sig_ready = False,
      sig_closed = False, cancel_ready = True,
      trace = [SetKeepAlivesEnabled_false, Listener_Close]\<rparr>"

text \<open>The server with the negative timeout, draining with connection 1 active.\<close>

definition st_negative :: gstate where
  "st_negative =
     \<lparr>main = M_wait_done, err = None, trk = T_select,
      tracker = \<lparr>done_chan = Some 0, connections = {1}\<rparr>, watcher = W_select,
      hooks = [(1, StateActive, H_hook)], stopListener_closed = True,
      sig_ready = False, sig_closed = False, cancel_ready = False,
      trace = [Signal_Notify, Http_Serve_Close, Close_chan Ch_stopListener]\<rparr>"

text \<open>A signal has arrived on the caller's channel and the watcher has torn it down.\<close>

definition st_sig :: gstate where
  "st_sig =
     \<lparr>main = M_Serve, err = None, trk = T_select,
      tracker = \<lparr>done_chan = None, connections = {}\<rparr>,
      watcher = W_SetKeepAlivesEnabled, hooks = [],
      stopListener_closed = False, sig_ready = False, sig_closed = True,
      cancel_ready = False, trace = [Signal_Stop, Close_chan Ch_sig]\<rparr>"

text \<open>
  Connection 1 is active when the drain begins; the timer fires; then net/http
  reports connection 1 closed and the tracker takes that message.
\<close>

definition timer_fired :: "label list" where
  "timer_fired =
     [Engine_event 1 StateActive, Hook_send 0, Hook_step 0,
      Engine_returns (Some ''accept''), Main_step, Stop_rendezvous, Timer,
      Engine_event 1 StateClosed]"

definition timer_then_remove :: "label list" where
  "timer_then_remove = timer_fired @ [Hook_send 1]"

definition st_closed_pending :: gstate where
  "st_closed_pending =
     \<lparr>main = M_send_kill, err = Some ''accept'', trk = T_select,
      tracker = \<lparr>done_chan = Some 0, connections = {1}\<rparr>, watcher = W_select,
      hooks = [(1, StateActive, H_returned), (1, StateClosed, H_switch)],
      stopListener_closed = True, sig_ready = False, sig_closed = False,
      cancel_ready = False,
      trace = [Hook_called 1 StateActive, Http_Serve_Close, Close_chan Ch_stopListener]\<rparr>"

definition st_blocked_closed :: gstate where
  "st_blocked_closed =
     \<lparr>main = M_send_kill, err = Some ''accept'', trk = T_send_done 0,
      tracker = \<lparr>done_chan = Some 0, connections = {}\<rparr>, watcher = W_select,
      hooks = [(1, StateActive, H_returned), (1, StateClosed, H_hook)],
      stopListener_closed = True, sig_ready = False, sig_closed = False,
      cancel_ready = False,
      trace = [Hook_called 1 StateActive, Http_Serve_Close, Close_chan Ch_stopListener]\<rparr>"

text \<open>
  No connection is ever made; the serve loop returns, the stop request is sent, and the
  timer fires before Serve receives from \<^verbatim>\<open>done\<close>.
\<close>

definition timer_before_done :: "label list" where
  "timer_before_done = [Engine_returns (Some ''accept''), Main_step, Stop_rendezvous, Timer]"

definition st_blocked_empty :: gstate where
  "st_blocked_empty =
     \<lparr>main = M_send_kill, err = Some ''accept'', trk = T_send_done 0,
      tracker = \<lparr>done_chan = Some 0, connections = {}\<rparr>, watcher = W_select,
      hooks = [], stopListener_closed = True, sig_ready = False,
      sig_closed = False, cancel_ready = False,
      trace = [Http_Serve_Close, Close_chan Ch_stopListener]\<rparr>"

text \<open>
  Draining with connection 1 active, the timer has fired, and net/http reports that
  connection 1 has become idle; then the tracker has taken that message.
\<close>

definition timer_fired_idle :: "label list" where
  "timer_fired_idle =
     [Engine_event 1 StateActive, Hook_send 0, Hook_step 0,
      Engine_returns (Some ''accept''), Main_step, Stop_rendezvous, Timer,
      Engine_event 1 StateIdle]"

definition st_idle_pending :: gstate where
  "st_idle_pending =
     \<lparr>main = M_send_kill, err = Some ''accept'', trk = T_select,
      tracker = \<lparr>done_chan = Some 0, connections = {1}\<rparr>, watcher = W_select,
      hooks = [(1, StateActive, H_returned), (1, StateIdle, H_switch)],
      stopListener_closed = True, sig_ready = False, sig_closed = False,
      cancel_ready = False,
      trace = [Hook_called 1 StateActive, Http_Serve_Close, Close_chan Ch_stopListener]\<rparr>"

definition st_blocked_idle :: gstate where
  "st_blocked_idle =
     \<lparr>main = M_send_kill, err = Some ''accept'', trk = T_send_done 0,
      tracker = \<lparr>done_chan = Some 0, connections = {}\<rparr>, watcher = W_select,
      hooks = [(1, StateActive, H_returned), (1, StateIdle, H_hook)],
      stopListener_closed = True, sig_ready = False, sig_closed = False,
      cancel_ready = False,
      trace = [Hook_called 1 StateActive, Http_Serve_Close, Close_chan Ch_stopListener]\<rparr>"

text \<open>
  A signal arrives, the watcher closes the listener, and the serve loop returns because
  of it.
\<close>

definition st_twice :: gstate where
  "st_twice =
     \<lparr>main = M_close_stopListener, err = Some ''accept'', trk = T_select,
      tracker = \<lparr>done_chan = None, connections = {}\<rparr>, watcher = W_returned,
      hooks = [], stopListener_closed = False, sig_ready = False,
      sig_closed = True, cancel_ready = False,
      trace = [Signal_Stop, Close_chan Ch_sig, SetKeepAlivesEnabled_false, Listener_Close,
               Http_Serve_Close]\<rparr>"

text \<open>A world in which the key pair does not load, and one in which everything works.\<close>

definition world_bad_cert :: world where
  "world_bad_cert =
     \<lparr>LoadX509KeyPair = (\<lambda>c k. Inl ''no such file''), Listen = (\<lambda>n a. Inr 7)\<rparr>"

definition world_ok :: world where
  "world_ok = \<lparr>LoadX509KeyPair = (\<lambda>c k. Inr 3), Listen = (\<lambda>n a. Inr 7)\<rparr>"

section \<open>Invariants of the system\<close>

text \<open>
  Serve is not at the kill send, the tracker is not at its closing loop and no
  connection was force-closed.
\<close>

definition never_killed :: "gstate \<Rightarrow> bool" where
  "never_killed s = (main s \<noteq> M_send_kill \<and> (\<forall>cs. trk s \<noteq> T_close_all cs) \<and>
      (\<forall>cs. Conn_Close cs \<notin> set (trace s)))"

text \<open>\<^verbatim>\<open>stopListener\<close> is closed once the calling goroutine is past line 213.\<close>

definition released :: "gstate \<Rightarrow> bool" where
  "released s = (main s = M_Serve \<or> main s = M_close_stopListener \<or> stopListener_closed s)"

text \<open>What the watcher has logged when it stands at a given statement.\<close>

definition teardown_sig :: "Server \<Rightarrow> event list" where
  "teardown_sig srv = (if sig_in_use srv then [Signal_Stop, Close_chan Ch_sig] else [])"

fun watcher_events :: "Server \<Rightarrow> watcher_pc \<Rightarrow> event list" where
  "watcher_events srv W_select = []"
| "watcher_events srv W_signal_Stop = []"
| "watcher_events srv W_close_sig = [Signal_Stop]"
| "watcher_events srv W_SetKeepAlivesEnabled = teardown_sig srv"
| "watcher_events srv W_listener_Close = teardown_sig srv @ [SetKeepAlivesEnabled_false]"
| "watcher_events srv W_returned =
     teardown_sig srv @ [SetKeepAlivesEnabled_false, Listener_Close]"

fun by_watcher :: "event \<Rightarrow> bool" where
  "by_watcher Signal_Stop = True"
| "by_watcher (Close_chan ch) = (ch = Ch_sig)"
| "by_watcher SetKeepAlivesEnabled_false = True"
| "by_watcher Listener_Close = True"
| "by_watcher _ = False"

definition watcher_inv :: "Server \<Rightarrow> gstate \<Rightarrow> bool" where
  "watcher_inv srv s =
     (filter by_watcher (trace s) = watcher_events srv (watcher s) \<and>
      (watcher s = W_signal_Stop \<or> watcher s = W_close_sig \<longrightarrow> sig_in_use srv) \<and>
      (\<forall>ch. Close_chan ch \<in> set (trace s) \<longrightarrow> ch = Ch_sig \<or> ch = Ch_stopListener))"

text \<open>
  The schedule on which the watcher, standing at a given statement, runs to its end
  once \<^verbatim>\<open>stopListener\<close> is closed.
\<close>

fun watcher_rest :: "Server \<Rightarrow> watcher_pc \<Rightarrow> label list" where
  "watcher_rest srv W_select =
     Watcher_select Src_stopListener #
     (if sig_in_use srv then [Watcher_step, Watcher_step, Watcher_step, Watcher_step]
      else [Watcher_step, Watcher_step])"
| "watcher_rest srv W_signal_Stop = [Watcher_step, Watcher_step, Watcher_step, Watcher_step]"
| "watcher_rest srv W_close_sig = [Watcher_step, Watcher_step, Watcher_step]"
| "watcher_rest srv W_SetKeepAlivesEnabled = [Watcher_step, Watcher_step]"
| "watcher_rest srv W_listener_Close = [Watcher_step]"
| "watcher_rest srv W_returned = []"

text \<open>
  The tracker has returned while hook \<open>i\<close>, called for \<open>(c, st)\<close>, stands before its
  channel send, and the observer has not been called for \<open>(c, st)\<close>.
\<close>

definition hook_blocked :: "nat \<Rightarrow> conn \<Rightarrow> http_ConnState \<Rightarrow> gstate \<Rightarrow> bool" where
  "hook_blocked i c st s =
     (trk s = T_returned \<and> i < length (hooks s) \<and> hooks s ! i = (c, st, H_switch) \<and>
      (\<forall>h \<in> set (hooks s). fst h = c \<and> fst (snd h) = st \<longrightarrow> snd (snd h) = H_switch) \<and>
      Hook_called c st \<notin> set (trace s))"

text \<open>
  Serve stands at the send on \<^verbatim>\<open>kill\<close> while the tracker stands at the send on
  \<^verbatim>\<open>done\<close>, and no connection has been force-closed.
\<close>

definition deadlocked :: "chan_id \<Rightarrow> gstate \<Rightarrow> bool" where
  "deadlocked d s =
     (main s = M_send_kill \<and> trk s = T_send_done d \<and> (\<forall>cs. Conn_Close cs \<notin> set (trace s)))"

text \<open>
  The kill message has been received: Serve has returned \<open>e\<close>, and the tracker is
  about to close the handles \<open>cs\<close> or has closed them, once, and returned.
\<close>

fun is_Conn_Close :: "event \<Rightarrow> bool" where
  "is_Conn_Close (Conn_Close cs) = True"
| "is_Conn_Close _ = False"

definition kill_received :: "error option \<Rightarrow> conn set \<Rightarrow> event list \<Rightarrow> gstate \<Rightarrow> bool" where
  "kill_received e cs tr s =
     (main s = M_returned \<and> err s = e \<and>
      ((trk s = T_close_all cs \<and> filter is_Conn_Close (trace s) = tr) \<or>
       (trk s = T_returned \<and> filter is_Conn_Close (trace s) = tr @ [Conn_Close cs])))"

text \<open>net/http has closed the listener once the serve loop has returned, and not before.\<close>

definition served :: "gstate \<Rightarrow> bool" where
  "served s = (count_list (trace s) Http_Serve_Close = (if main s = M_Serve then 0 else 1))"

section \<open>Lemmas about single steps and schedules\<close>

lemma run_invariant:
  assumes pres: "\<And>l s s'. P s \<Longrightarrow> step srv l s = Some s' \<Longrightarrow> P s'"
  assumes start: "P s" and r: "run srv ls s = Some s'"
  shows "P s'"
  using start r
proof (induction ls arbitrary: s)
  case Nil
  then show ?case by simp
next
  case (Cons l ls)
  then show ?case by (auto split: option.splits dest: pres)
qed

lemma tracker_close_Some:
  "tracker_close Close s = Some s' \<longleftrightarrow>
     (\<exists>cs. trk s = T_close_all cs \<and>
           s' = s\<lparr>trk := T_returned, trace := trace s @ [Conn_Close cs]\<rparr>)"
  by (auto simp: tracker_close_def split: tracker_pc.splits)

lemma tracker_idle:
  assumes "trk s \<noteq> T_select" "step srv l s = Some s'"
  shows "tracker s' = tracker s \<and>
         (trk s' = trk s \<or>
          (l = Done_rendezvous \<and> trk s = T_send_done main_done \<and> trk s' = T_returned) \<or>
          ((\<exists>Close. l = Tracker_close Close) \<and> (\<exists>cs. trk s = T_close_all cs) \<and>
           trk s' = T_returned))"
  using assms
  by (cases l) (auto simp: watcher_step_def hook_step_def hook_send_def tracker_close_Some
      split: if_splits watcher_pc.splits prod.splits hook_pc.splits option.splits)

lemma deliver_frame [simp]: "hooks (deliver m s) = hooks s" "main (deliver m s) = main s"
  "watcher (deliver m s) = watcher s" "err (deliver m s) = err s"
  "stopListener_closed (deliver m s) = stopListener_closed s"
  "sig_closed (deliver m s) = sig_closed s"
  by (cases m; simp add: deliver_def Let_def split: option.splits)+

lemma deliver_trk:
  "trk (deliver m s) =
     (case m of
        Add c \<Rightarrow> trk s
      | Remove c \<Rightarrow> (case done_chan (tracker s) of None \<Rightarrow> trk s
          | Some d \<Rightarrow> if connections (tracker s) - {c} = {} then T_send_done d else trk s)
      | Stop d \<Rightarrow> if connections (tracker s) = {} then T_send_done d else trk s
      | Kill \<Rightarrow> T_close_all (connections (tracker s)))"
  by (cases m) (simp_all add: deliver_def Let_def split: option.splits)

lemma deliver_trace: "trace (deliver m s) = trace s"
  by (cases m) (simp_all add: deliver_def Let_def split: option.splits)

lemma hook_send_Some:
  assumes "hook_send i s = Some s'"
  obtains c st m where "i < length (hooks s)" "trk s = T_select" "hooks s ! i = (c, st, H_switch)"
    "forward st c = Some m" "s' = deliver m (s\<lparr>hooks := (hooks s)[i := (c, st, H_hook)]\<rparr>)"
  using assms
  by (auto simp: hook_send_def split: if_splits prod.splits hook_pc.splits option.splits)

lemma forward_Some:
  "forward st c = Some m \<Longrightarrow>
     (st = StateActive \<and> m = Add c) \<or> ((st = StateClosed \<or> st = StateIdle) \<and> m = Remove c)"
  by (cases st) auto

lemma step_main:
  assumes "step srv l s = Some s'"
  shows "main s' =
     (case l of
        Engine_returns e \<Rightarrow> M_close_stopListener
      | Main_step \<Rightarrow> M_send_stop
      | Stop_rendezvous \<Rightarrow> M_wait_done
      | Done_rendezvous \<Rightarrow> M_returned
      | Timer \<Rightarrow> M_send_kill
      | Kill_rendezvous \<Rightarrow> M_returned
      | _ \<Rightarrow> main s)"
  using assms
  by (cases l) (auto simp: watcher_step_def hook_step_def tracker_close_Some
      elim!: hook_send_Some
      split: if_splits watcher_pc.splits prod.splits hook_pc.splits option.splits)

lemma watcher_step_Some:
  assumes "watcher_step s = Some s'"
  shows "(watcher s = W_signal_Stop \<and> s' = s\<lparr>watcher := W_close_sig, trace := trace s @ [Signal_Stop]\<rparr>)
       \<or> (watcher s = W_close_sig \<and> s' = s\<lparr>watcher := W_SetKeepAlivesEnabled, sig_closed := True,
                 trace := trace s @ [Close_chan Ch_sig]\<rparr>)
       \<or> (watcher s = W_SetKeepAlivesEnabled \<and> s' = s\<lparr>watcher := W_listener_Close,
                 trace := trace s @ [SetKeepAlivesEnabled_false]\<rparr>)
       \<or> (watcher s = W_listener_Close \<and> s' = s\<lparr>watcher := W_returned, trace := trace s @ [Listener_Close]\<rparr>)"
  using assms by (auto simp: watcher_step_def split: watcher_pc.splits)

lemma step_watcher_pc:
  assumes "step srv l s = Some s'" "l \<noteq> Watcher_step"
  shows "watcher s' = (case l of Watcher_select src \<Rightarrow>
            (if sig_in_use srv then W_signal_Stop else W_SetKeepAlivesEnabled) | _ \<Rightarrow> watcher s)"
  using assms
  by (cases l) (auto simp: hook_step_def tracker_close_Some elim!: hook_send_Some
      split: if_splits prod.splits hook_pc.splits option.splits)

lemma step_trace_other:
  assumes "step srv l s = Some s'" "l \<noteq> Watcher_step"
  shows "trace s' = trace s \<or> (\<exists>e. trace s' = trace s @ [e] \<and> \<not> by_watcher e \<and>
           (\<forall>ch. e = Close_chan ch \<longrightarrow> ch = Ch_stopListener))"
  using assms
  by (cases l) (auto simp: hook_step_def deliver_trace tracker_close_Some elim!: hook_send_Some
      dest!: forward_Some
      split: if_splits prod.splits hook_pc.splits option.splits)

lemma step_watcher_inv:
  assumes "watcher_inv srv s" "step srv l s = Some s'"
  shows "watcher_inv srv s'"
proof (cases "l = Watcher_step")
  case True
  with assms(2) have "watcher_step s = Some s'" by simp
  from watcher_step_Some [OF this] assms(1) show ?thesis
    unfolding watcher_inv_def by (elim disjE conjE) (auto simp: teardown_sig_def)
next
  case False
  have w: "watcher s' = watcher s \<or> (watcher s = W_select \<and>
      watcher s' = (if sig_in_use srv then W_signal_Stop else W_SetKeepAlivesEnabled))"
    using step_watcher_pc [OF assms(2) False] assms(2)
    by (cases l) (auto split: if_splits)
  from step_trace_other [OF assms(2) False] w assms(1) show ?thesis
    unfolding watcher_inv_def by (elim disjE conjE exE) (auto simp: teardown_sig_def)
qed

lemma hook_step_Some:
  assumes "hook_step srv i s = Some s'"
  shows "i < length (hooks s) \<and>
     (\<exists>c st. (hooks s ! i = (c, st, H_switch) \<and> forward st c = None \<and>
               s' = s\<lparr>hooks := (hooks s)[i := (c, st, H_hook)]\<rparr>)
            \<or> (hooks s ! i = (c, st, H_hook) \<and>
               s' = s\<lparr>hooks := (hooks s)[i := (c, st, H_returned)],
                      trace := (if ConnState srv then trace s @ [Hook_called c st] else trace s)\<rparr>))"
  using assms
  by (auto simp: hook_step_def split: if_splits prod.splits hook_pc.splits option.splits)

lemma step_hook_blocked:
  assumes f: "forward st c = Some m" and b: "hook_blocked i c st s" and st: "step srv l s = Some s'"
  shows "hook_blocked i c st s'"
proof (cases l)
  case (Engine_event c' st')
  with b st show ?thesis
    by (auto simp: hook_blocked_def nth_append)
next
  case (Hook_send j)
  with b st show ?thesis
    by (simp add: hook_blocked_def hook_send_def)
next
  case (Hook_step j)
  with st have hs: "hook_step srv j s = Some s'" by simp
  from hook_step_Some [OF hs] obtain c' st' where j: "j < length (hooks s)"
    and d: "(hooks s ! j = (c', st', H_switch) \<and> forward st' c' = None \<and>
               s' = s\<lparr>hooks := (hooks s)[j := (c', st', H_hook)]\<rparr>)
            \<or> (hooks s ! j = (c', st', H_hook) \<and>
               s' = s\<lparr>hooks := (hooks s)[j := (c', st', H_returned)],
                      trace := (if ConnState srv then trace s @ [Hook_called c' st'] else trace s)\<rparr>)"
    by blast
  from j have mem: "hooks s ! j \<in> set (hooks s)" by simp
  from d have "\<exists>pc'. hooks s' = (hooks s)[j := (c', st', pc')]"
    and tr: "set (trace s') \<subseteq> insert (Hook_called c' st') (set (trace s))"
    and k: "trk s' = trk s"
    by (auto split: if_splits)
  then obtain pc' where s': "hooks s' = (hooks s)[j := (c', st', pc')]"
    by blast
  have ne: "\<not> (c' = c \<and> st' = st)"
  proof
    assume e: "c' = c \<and> st' = st"
    from d show False
    proof
      assume "hooks s ! j = (c', st', H_switch) \<and> forward st' c' = None \<and>
               s' = s\<lparr>hooks := (hooks s)[j := (c', st', H_hook)]\<rparr>"
      with e f show False by simp
    next
      assume "hooks s ! j = (c', st', H_hook) \<and>
               s' = s\<lparr>hooks := (hooks s)[j := (c', st', H_returned)],
                      trace := (if ConnState srv then trace s @ [Hook_called c' st'] else trace s)\<rparr>"
      with e mem b show False by (auto simp: hook_blocked_def)
    qed
  qed
  with b d have ji: "j \<noteq> i" by (auto simp: hook_blocked_def)
  have 1: "trk s' = T_returned"
    using b k by (simp add: hook_blocked_def)
  have 2: "i < length (hooks s')" "hooks s' ! i = (c, st, H_switch)"
    using b ji s' by (simp_all add: hook_blocked_def)
  have 3: "snd (snd h) = H_switch" if "h \<in> set (hooks s')" "fst h = c \<and> fst (snd h) = st" for h
  proof -
    from that(1) s' set_update_subset_insert [of "hooks s" j "(c', st', pc')"]
    have "h = (c', st', pc') \<or> h \<in> set (hooks s)" by auto
    with that(2) ne b show ?thesis by (auto simp: hook_blocked_def)
  qed
  have 4: "Hook_called c st \<notin> set (trace s')"
    using tr ne b by (auto simp: hook_blocked_def)
  from 1 2 3 4 show ?thesis
    unfolding hook_blocked_def by blast
qed (use b st in \<open>auto simp: hook_blocked_def watcher_step_def tracker_close_Some
      split: if_splits watcher_pc.splits\<close>)

lemma ready_Timeout: "ready (srv\<lparr>Timeout := t\<rparr>) src s = ready srv src s"
  by (cases src) (simp_all add: sig_in_use_def)

lemma step_Timeout_nonpos:
  assumes "sint (Timeout srv) \<le> 0"
  shows "step (srv\<lparr>Timeout := 0\<rparr>) l s = step srv l s"
  using assms by (cases l) (auto simp: sig_in_use_def hook_step_def ready_Timeout)

lemma run_Timeout_nonpos:
  assumes "sint (Timeout srv) \<le> 0"
  shows "run (srv\<lparr>Timeout := 0\<rparr>) ls s = run srv ls s"
  by (induction ls arbitrary: s) (simp_all add: step_Timeout_nonpos [OF assms] split: option.splits)

lemma step_never_killed:
  assumes "sint (Timeout srv) \<le> 0" "never_killed s" "step srv l s = Some s'"
  shows "never_killed s'"
  using assms(2,3) step_main [OF assms(3)] assms(1) unfolding never_killed_def
  by (cases l) (auto simp: watcher_step_def hook_step_def deliver_trace deliver_trk tracker_close_Some
      elim!: hook_send_Some dest!: forward_Some
      split: if_splits watcher_pc.splits prod.splits hook_pc.splits option.splits)

lemma run_watcher_inv:
  assumes "run srv ls (init srv) = Some s"
  shows "watcher_inv srv s"
proof -
  have "watcher_inv srv (init srv)"
    by (simp add: watcher_inv_def init_def)
  with run_invariant [of "watcher_inv srv" srv "init srv" ls s] step_watcher_inv assms
  show ?thesis by blast
qed

lemma count_list_filter: "P e \<Longrightarrow> count_list (filter P xs) e = count_list xs e"
  by (induction xs) auto

lemma filter_filter_sub: "(\<And>e. Q e \<Longrightarrow> P e) \<Longrightarrow> filter Q (filter P xs) = filter Q xs"
  by (induction xs) auto

lemma step_released:
  assumes "released s" "step srv l s = Some s'"
  shows "released s'"
  using assms step_main [OF assms(2)] unfolding released_def
  by (cases l) (auto simp: watcher_step_def hook_step_def tracker_close_Some elim!: hook_send_Some
      split: if_splits watcher_pc.splits prod.splits hook_pc.splits option.splits)

lemma step_deadlocked:
  assumes "deadlocked d s" "step srv l s = Some s'"
  shows "deadlocked d s'"
proof -
  from assms(1) have t: "trk s \<noteq> T_select" and m: "main s = M_send_kill"
    by (simp_all add: deadlocked_def)
  from tracker_idle [OF t assms(2)] assms(1) m assms(2)
  have 1: "trk s' = T_send_done d"
    by (cases l) (auto simp: deadlocked_def tracker_close_Some split: if_splits)
  from step_main [OF assms(2)] assms(2) m t have 2: "main s' = M_send_kill"
    by (cases l) (auto split: if_splits)
  from assms have 3: "\<forall>cs. Conn_Close cs \<notin> set (trace s')"
    by (cases l) (auto simp: deadlocked_def watcher_step_def hook_step_def tracker_close_Some
      deliver_trace elim!: hook_send_Some
      split: if_splits watcher_pc.splits prod.splits hook_pc.splits option.splits)
  from 1 2 3 show ?thesis
    by (simp add: deadlocked_def)
qed

lemma run_deadlocked:
  assumes "deadlocked d s" "run srv ls s = Some s'"
  shows "deadlocked d s'"
  using run_invariant [of "deadlocked d" srv s ls s'] step_deadlocked assms by blast

lemma step_closes:
  assumes "step srv l s = Some s'" "\<And>Close. l \<noteq> Tracker_close Close"
  shows "filter is_Conn_Close (trace s') = filter is_Conn_Close (trace s)"
  using assms
  by (cases l) (auto simp: watcher_step_def hook_step_def deliver_trace
      elim!: hook_send_Some
      split: if_splits watcher_pc.splits prod.splits hook_pc.splits option.splits)

lemma step_err_returned:
  assumes "step srv l s = Some s'" "main s = M_returned"
  shows "main s' = M_returned \<and> err s' = err s"
  using assms
  by (cases l) (auto simp: watcher_step_def hook_step_def tracker_close_Some
      elim!: hook_send_Some
      split: if_splits watcher_pc.splits prod.splits hook_pc.splits option.splits)

lemma step_kill_received:
  assumes k: "kill_received e cs tr s" and st: "step srv l s = Some s'"
  shows "kill_received e cs tr s'"
proof -
  from k have m: "main s = M_returned" and e: "err s = e"
    by (simp_all add: kill_received_def)
  from step_err_returned [OF st m] e have 1: "main s' = M_returned" "err s' = e"
    by simp_all
  from k consider
      (closing) "trk s = T_close_all cs" "filter is_Conn_Close (trace s) = tr"
    | (closed) "trk s = T_returned" "filter is_Conn_Close (trace s) = tr @ [Conn_Close cs]"
    unfolding kill_received_def by blast
  then show ?thesis
  proof cases
    case closing
    show ?thesis
    proof (cases "\<exists>Close. l = Tracker_close Close")
      case True
      then obtain Close where "l = Tracker_close Close" by blast
      with st closing have "s' = s\<lparr>trk := T_returned, trace := trace s @ [Conn_Close cs]\<rparr>"
        by (simp add: tracker_close_Some)
      with closing 1 show ?thesis
        by (simp add: kill_received_def)
    next
      case False
      then have n: "\<And>Close. l \<noteq> Tracker_close Close" by blast
      from closing have "trk s \<noteq> T_select" by simp
      from tracker_idle [OF this st] n closing have "trk s' = T_close_all cs"
        by auto
      with step_closes [OF st n] closing 1 show ?thesis
        by (simp add: kill_received_def)
    qed
  next
    case closed
    then have t: "trk s \<noteq> T_select" by simp
    have n: "l \<noteq> Tracker_close Close" for Close
      using st closed by (auto simp: tracker_close_Some)
    from tracker_idle [OF t st] closed have "trk s' = T_returned"
      by auto
    with step_closes [OF st n] closed 1 show ?thesis
      by (simp add: kill_received_def)
  qed
qed

lemma run_kill_received:
  assumes "kill_received e cs tr s" "run srv ls s = Some s'"
  shows "kill_received e cs tr s'"
  using run_invariant [of "kill_received e cs tr" srv s ls s'] step_kill_received assms by blast

lemma step_served:
  assumes "served s" "step srv l s = Some s'"
  shows "served s'"
  using assms step_main [OF assms(2)] unfolding served_def
  by (cases l) (auto simp: watcher_step_def hook_step_def tracker_close_Some deliver_trace
      elim!: hook_send_Some
      split: if_splits watcher_pc.splits prod.splits hook_pc.splits option.splits)

section \<open>The claims\<close>

subsection \<open>C1: the wait for drain completion\<close>

text \<open>
  C1. The claim asks that Serve, when the timeout elapses before the drain completes,
  sends a kill message to the tracker. On the schedule below it does not: connection 1
  is active when the drain begins, the timer fires and Serve goes to
  \<^verbatim>\<open>kill <- struct{}{}\<close> (line 223), and net/http reports connection 1 closed. The
  tracker's \<^verbatim>\<open>select\<close> can now take either message. If it takes the kill, Serve
  returns and the tracker goes to close connection 1. If it takes the remove, the set
  is empty, so the tracker goes to \<^verbatim>\<open>done <- struct{}{}\<close> (line 165), and from then
  on, on every continuation, Serve stands at the send on \<^verbatim>\<open>kill\<close>, the kill
  message is never received, the tracker never reaches its closing loop, no connection
  is force-closed and Serve does not return.
\<close>

theorem C1_kill_never_received:
  "0 < sint (Timeout srv_test)
   \<and> run srv_test timer_fired (init srv_test) = Some st_closed_pending
   \<and> step srv_test Kill_rendezvous st_closed_pending
       = Some (st_closed_pending\<lparr>main := M_returned, trk := T_close_all {1}\<rparr>)
   \<and> step srv_test (Hook_send 1) st_closed_pending = Some st_blocked_closed
   \<and> run srv_test timer_then_remove (init srv_test) = Some st_blocked_closed
   \<and> main st_blocked_closed = M_send_kill
   \<and> (\<forall>ls s. run srv_test ls st_blocked_closed = Some s \<longrightarrow>
         main s = M_send_kill \<and> step srv_test Kill_rendezvous s = None \<and>
         (\<forall>cs. trk s \<noteq> T_close_all cs) \<and> (\<forall>cs. Conn_Close cs \<notin> set (trace s)))"
proof (intro conjI allI impI)
  show "0 < sint (Timeout srv_test)"
    by (simp add: srv_test_def)
  show "run srv_test timer_fired (init srv_test) = Some st_closed_pending"
    by (simp add: srv_test_def timer_fired_def init_def st_closed_pending_def
        hook_send_def hook_step_def deliver_def main_done_def)
  show "step srv_test Kill_rendezvous st_closed_pending
       = Some (st_closed_pending\<lparr>main := M_returned, trk := T_close_all {1}\<rparr>)"
    by (simp add: st_closed_pending_def deliver_def)
  show "step srv_test (Hook_send 1) st_closed_pending = Some st_blocked_closed"
    by (simp add: st_closed_pending_def st_blocked_closed_def hook_send_def deliver_def)
  show "run srv_test timer_then_remove (init srv_test) = Some st_blocked_closed"
    by (simp add: srv_test_def timer_then_remove_def timer_fired_def init_def
        st_blocked_closed_def hook_send_def hook_step_def deliver_def main_done_def)
  show "main st_blocked_closed = M_send_kill"
    by (simp add: st_blocked_closed_def)
next
  fix ls s
  assume r: "run srv_test ls st_blocked_closed = Some s"
  have "deadlocked 0 st_blocked_closed"
    by (simp add: deadlocked_def st_blocked_closed_def)
  from run_deadlocked [OF this r]
  show "main s = M_send_kill" and "step srv_test Kill_rendezvous s = None"
    and "\<And>cs. trk s \<noteq> T_close_all cs" and "\<And>cs. Conn_Close cs \<notin> set (trace s)"
    by (simp_all add: deadlocked_def)
qed

text \<open>
  The theorem on the continuation in which the hook of connection 1 goes on to call the
  observer and a signal arrives: Serve is still at the send on \<^verbatim>\<open>kill\<close>.
\<close>

theorem C1_kill_never_received_witness:
  "run srv_test [Hook_step 1, Os_signal] st_blocked_closed
     = Some (st_blocked_closed
              \<lparr>hooks := [(1, StateActive, H_returned), (1, StateClosed, H_returned)],
                sig_ready := True,
                trace := trace st_blocked_closed @ [Hook_called 1 StateClosed]\<rparr>)
   \<and> main (st_blocked_closed
              \<lparr>hooks := [(1, StateActive, H_returned), (1, StateClosed, H_returned)],
                sig_ready := True,
                trace := trace st_blocked_closed @ [Hook_called 1 StateClosed]\<rparr>) = M_send_kill
   \<and> step srv_test Kill_rendezvous
        (st_blocked_closed
              \<lparr>hooks := [(1, StateActive, H_returned), (1, StateClosed, H_returned)],
                sig_ready := True,
                trace := trace st_blocked_closed @ [Hook_called 1 StateClosed]\<rparr>) = None"
proof -
  let ?s = "st_blocked_closed
              \<lparr>hooks := [(1, StateActive, H_returned), (1, StateClosed, H_returned)],
                sig_ready := True,
                trace := trace st_blocked_closed @ [Hook_called 1 StateClosed]\<rparr>"
  have r: "run srv_test [Hook_step 1, Os_signal] st_blocked_closed = Some ?s"
    by (simp add: st_blocked_closed_def srv_test_def hook_step_def sig_in_use_def)
  from C1_kill_never_received have
    "\<forall>ls s. run srv_test ls st_blocked_closed = Some s \<longrightarrow>
         main s = M_send_kill \<and> step srv_test Kill_rendezvous s = None \<and>
         (\<forall>cs. trk s \<noteq> T_close_all cs) \<and> (\<forall>cs. Conn_Close cs \<notin> set (trace s))"
    by (elim conjE)
  with r have "main ?s = M_send_kill" and "step srv_test Kill_rendezvous ?s = None"
    by blast+
  with r show ?thesis by (intro conjI)
qed

subsection \<open>C2: a stop request\<close>

text \<open>
  C2. The claim asks that a stop request that finds the tracked set empty is answered
  at once, the tracker returning, and that with no connection ever tracked the drain
  completes whatever the Timeout. With a Timeout of one nanosecond and no connection at
  all it need not: the stop request is received and the tracker goes to
  \<^verbatim>\<open>done <- struct{}{}\<close> (line 170). If Serve receives, both return. If the timer
  fires before Serve has received, Serve goes to \<^verbatim>\<open>kill <- struct{}{}\<close> (line 223),
  and from then on, on every continuation, the send on \<^verbatim>\<open>done\<close> is never received,
  the tracker never returns and Serve never returns.
\<close>

theorem C2_drain_never_completes:
  "0 < sint (Timeout srv_1ns)
   \<and> run srv_1ns [Engine_returns (Some ''accept''), Main_step, Stop_rendezvous] (init srv_1ns)
       = Some (st_blocked_empty\<lparr>main := M_wait_done\<rparr>)
   \<and> step srv_1ns Done_rendezvous (st_blocked_empty\<lparr>main := M_wait_done\<rparr>)
       = Some (st_blocked_empty\<lparr>main := M_returned, trk := T_returned\<rparr>)
   \<and> step srv_1ns Timer (st_blocked_empty\<lparr>main := M_wait_done\<rparr>) = Some st_blocked_empty
   \<and> run srv_1ns timer_before_done (init srv_1ns) = Some st_blocked_empty
   \<and> hooks st_blocked_empty = []
   \<and> connections (tracker st_blocked_empty) = {}
   \<and> trk st_blocked_empty = T_send_done main_done
   \<and> (\<forall>ls s. run srv_1ns ls st_blocked_empty = Some s \<longrightarrow>
         step srv_1ns Done_rendezvous s = None \<and> trk s = T_send_done main_done \<and>
         trk s \<noteq> T_returned \<and> main s \<noteq> M_returned)"
proof (intro conjI allI impI)
  show "0 < sint (Timeout srv_1ns)"
    by (simp add: srv_1ns_def)
  show "run srv_1ns [Engine_returns (Some ''accept''), Main_step, Stop_rendezvous] (init srv_1ns)
       = Some (st_blocked_empty\<lparr>main := M_wait_done\<rparr>)"
    by (simp add: srv_1ns_def init_def st_blocked_empty_def deliver_def main_done_def)
  show "step srv_1ns Done_rendezvous (st_blocked_empty\<lparr>main := M_wait_done\<rparr>)
       = Some (st_blocked_empty\<lparr>main := M_returned, trk := T_returned\<rparr>)"
    by (simp add: st_blocked_empty_def main_done_def)
  show "step srv_1ns Timer (st_blocked_empty\<lparr>main := M_wait_done\<rparr>) = Some st_blocked_empty"
    by (simp add: st_blocked_empty_def srv_1ns_def)
  show "run srv_1ns timer_before_done (init srv_1ns) = Some st_blocked_empty"
    by (simp add: srv_1ns_def timer_before_done_def init_def st_blocked_empty_def deliver_def
        main_done_def)
  show "hooks st_blocked_empty = []" and "connections (tracker st_blocked_empty) = {}"
    and "trk st_blocked_empty = T_send_done main_done"
    by (simp_all add: st_blocked_empty_def main_done_def)
next
  fix ls s
  assume r: "run srv_1ns ls st_blocked_empty = Some s"
  have "deadlocked main_done st_blocked_empty"
    by (simp add: deadlocked_def st_blocked_empty_def main_done_def)
  from run_deadlocked [OF this r]
  show "step srv_1ns Done_rendezvous s = None" and "trk s = T_send_done main_done"
    and "trk s \<noteq> T_returned" and "main s \<noteq> M_returned"
    by (simp_all add: deadlocked_def)
qed

text \<open>
  The theorem on the continuation in which a signal arrives and the watcher runs to
  its end: the tracker is still at the send on \<^verbatim>\<open>done\<close> and Serve has not returned.
\<close>

theorem C2_drain_never_completes_witness:
  "run srv_1ns (Os_signal # watcher_rest srv_1ns W_select) st_blocked_empty
     = Some (st_blocked_empty
              \<lparr>watcher := W_returned, sig_ready := True, sig_closed := True,
                trace := trace st_blocked_empty @
                  [Signal_Stop, Close_chan Ch_sig, SetKeepAlivesEnabled_false,
                   Listener_Close]\<rparr>)
   \<and> trk (st_blocked_empty
              \<lparr>watcher := W_returned, sig_ready := True, sig_closed := True,
                trace := trace st_blocked_empty @
                  [Signal_Stop, Close_chan Ch_sig, SetKeepAlivesEnabled_false,
                   Listener_Close]\<rparr>) = T_send_done main_done
   \<and> step srv_1ns Done_rendezvous
        (st_blocked_empty
              \<lparr>watcher := W_returned, sig_ready := True, sig_closed := True,
                trace := trace st_blocked_empty @
                  [Signal_Stop, Close_chan Ch_sig, SetKeepAlivesEnabled_false,
                   Listener_Close]\<rparr>) = None"
proof -
  let ?s = "st_blocked_empty
              \<lparr>watcher := W_returned, sig_ready := True, sig_closed := True,
                trace := trace st_blocked_empty @
                  [Signal_Stop, Close_chan Ch_sig, SetKeepAlivesEnabled_false,
                   Listener_Close]\<rparr>"
  have r: "run srv_1ns (Os_signal # watcher_rest srv_1ns W_select) st_blocked_empty = Some ?s"
    by (simp add: st_blocked_empty_def srv_1ns_def sig_in_use_def watcher_step_def)
  from C2_drain_never_completes have
    "\<forall>ls s. run srv_1ns ls st_blocked_empty = Some s \<longrightarrow>
         step srv_1ns Done_rendezvous s = None \<and> trk s = T_send_done main_done \<and>
         trk s \<noteq> T_returned \<and> main s \<noteq> M_returned"
    by (elim conjE)
  with r have "trk ?s = T_send_done main_done" and "step srv_1ns Done_rendezvous ?s = None"
    by blast+
  with r show ?thesis by (intro conjI)
qed

subsection \<open>C3: a remove message\<close>

text \<open>
  C3. The claim asks that a remove which empties the set while a stop request is
  outstanding makes the tracker signal the notifier and return. In the state below it
  does not: the stop request is outstanding, connection 1 is the only one tracked,
  and the timer has already taken Serve to \<^verbatim>\<open>kill <- struct{}{}\<close> (line 223).
  net/http reports connection 1 idle, the tracker receives the remove, the set is
  empty and the tracker goes to \<^verbatim>\<open>done <- struct{}{}\<close> (line 165). Had Serve still
  been waiting it would receive and both would return; as it is, on every
  continuation that send is never received: the notifier is never signalled and the
  tracker never returns.
\<close>

theorem C3_notifier_never_signalled:
  "run srv_test timer_fired_idle (init srv_test) = Some st_idle_pending
   \<and> main st_idle_pending = M_send_kill
   \<and> trk st_idle_pending = T_select
   \<and> done_chan (tracker st_idle_pending) = Some main_done
   \<and> connections (tracker st_idle_pending) = {1}
   \<and> hooks st_idle_pending ! 1 = (1, StateIdle, H_switch)
   \<and> step srv_test (Hook_send 1) st_idle_pending = Some st_blocked_idle
   \<and> connections (tracker st_blocked_idle) = {}
   \<and> step srv_test Done_rendezvous (st_blocked_idle\<lparr>main := M_wait_done\<rparr>)
       = Some (st_blocked_idle\<lparr>main := M_returned, trk := T_returned\<rparr>)
   \<and> (\<forall>ls s. run srv_test ls st_blocked_idle = Some s \<longrightarrow>
         step srv_test Done_rendezvous s = None \<and> trk s = T_send_done main_done \<and>
         trk s \<noteq> T_returned)"
proof (intro conjI allI impI)
  show "main st_idle_pending = M_send_kill" and "trk st_idle_pending = T_select"
    and "done_chan (tracker st_idle_pending) = Some main_done"
    and "connections (tracker st_idle_pending) = {1}"
    and "hooks st_idle_pending ! 1 = (1, StateIdle, H_switch)"
    by (simp_all add: st_idle_pending_def main_done_def)
  show "step srv_test (Hook_send 1) st_idle_pending = Some st_blocked_idle"
    by (simp add: st_idle_pending_def st_blocked_idle_def hook_send_def deliver_def)
  show "connections (tracker st_blocked_idle) = {}"
    by (simp add: st_blocked_idle_def)
  show "run srv_test timer_fired_idle (init srv_test) = Some st_idle_pending"
    by (simp add: srv_test_def timer_fired_idle_def init_def st_idle_pending_def hook_send_def
        hook_step_def deliver_def main_done_def)
  show "step srv_test Done_rendezvous (st_blocked_idle\<lparr>main := M_wait_done\<rparr>)
       = Some (st_blocked_idle\<lparr>main := M_returned, trk := T_returned\<rparr>)"
    by (simp add: st_blocked_idle_def main_done_def)
next
  fix ls s
  assume r: "run srv_test ls st_blocked_idle = Some s"
  have "deadlocked main_done st_blocked_idle"
    by (simp add: deadlocked_def st_blocked_idle_def main_done_def)
  from run_deadlocked [OF this r]
  show "step srv_test Done_rendezvous s = None" and "trk s = T_send_done main_done"
    and "trk s \<noteq> T_returned"
    by (simp_all add: deadlocked_def)
qed

text \<open>
  The theorem on the continuation in which the hook of connection 1 goes on to call the
  observer.
\<close>

theorem C3_notifier_never_signalled_witness:
  "run srv_test [Hook_step 1] st_blocked_idle
       = Some (st_blocked_idle
                \<lparr>hooks := [(1, StateActive, H_returned), (1, StateIdle, H_returned)],
                  trace := trace st_blocked_idle @ [Hook_called 1 StateIdle]\<rparr>)
   \<and> trk (st_blocked_idle
                \<lparr>hooks := [(1, StateActive, H_returned), (1, StateIdle, H_returned)],
                  trace := trace st_blocked_idle @ [Hook_called 1 StateIdle]\<rparr>)
       = T_send_done main_done
   \<and> step srv_test Done_rendezvous
        (st_blocked_idle
                \<lparr>hooks := [(1, StateActive, H_returned), (1, StateIdle, H_returned)],
                  trace := trace st_blocked_idle @ [Hook_called 1 StateIdle]\<rparr>) = None"
proof -
  let ?s = "st_blocked_idle
                \<lparr>hooks := [(1, StateActive, H_returned), (1, StateIdle, H_returned)],
                  trace := trace st_blocked_idle @ [Hook_called 1 StateIdle]\<rparr>"
  have r: "run srv_test [Hook_step 1] st_blocked_idle = Some ?s"
    by (simp add: st_blocked_idle_def srv_test_def hook_step_def)
  from C3_notifier_never_signalled have
    "\<forall>ls s. run srv_test ls st_blocked_idle = Some s \<longrightarrow>
         step srv_test Done_rendezvous s = None \<and> trk s = T_send_done main_done \<and>
         trk s \<noteq> T_returned"
    by (elim conjE)
  with r have "trk ?s = T_send_done main_done" and "step srv_test Done_rendezvous ?s = None"
    by blast+
  with r show ?thesis by (intro conjI)
qed

subsection \<open>C4: a kill message\<close>

text \<open>
  C4. For every tracker state, with or without a notifier in \<^verbatim>\<open>done\<close>, the kill
  case of the \<^verbatim>\<open>select\<close> ends in the loop that closes exactly the handles of the
  tracked set. In the system the kill message is received only by a tracker in its
  loop, from a Serve standing at line 223; Serve then returns and the tracker stands
  at the closing loop with the set as it is at that moment. There its step is always
  enabled and is the same whatever the calls \<^verbatim>\<open>k.Close()\<close> return: it logs the
  closing of those handles and returns, touching nothing else of the state; until it
  takes that step no other step changes the tracker. On every continuation after the
  kill is received Serve has returned the serve loop's error, the handles are closed
  once and only by that step, the tracker receives no message again and ends returned,
  and the send on \<^verbatim>\<open>done\<close> never happens.
\<close>

theorem C4_kill:
  "tracker_select Kill t = (t, Close_all (connections t))
   \<and> step srv Kill_rendezvous s =
       (if main s = M_send_kill \<and> trk s = T_select
        then Some (s\<lparr>main := M_returned, trk := T_close_all (connections (tracker s))\<rparr>)
        else None)
   \<and> (trk s = T_close_all cs \<longrightarrow>
        step srv (Tracker_close Close) s
          = Some (s\<lparr>trk := T_returned, trace := trace s @ [Conn_Close cs]\<rparr>) \<and>
        (\<forall>l s'. step srv l s = Some s' \<longrightarrow> (\<forall>C. l \<noteq> Tracker_close C) \<longrightarrow>
           trk s' = T_close_all cs \<and> tracker s' = tracker s))
   \<and> (\<forall>s1 ls s2. step srv Kill_rendezvous s = Some s1 \<longrightarrow> run srv ls s1 = Some s2 \<longrightarrow>
         main s2 = M_returned \<and> err s2 = err s \<and> step srv Done_rendezvous s2 = None \<and>
         (if trk s2 = T_returned
          then filter is_Conn_Close (trace s2)
                 = filter is_Conn_Close (trace s) @ [Conn_Close (connections (tracker s))]
          else trk s2 = T_close_all (connections (tracker s)) \<and>
               filter is_Conn_Close (trace s2) = filter is_Conn_Close (trace s)))"
proof (intro conjI impI allI)
  show "tracker_select Kill t = (t, Close_all (connections t))"
    by simp
  show k: "step srv Kill_rendezvous s =
       (if main s = M_send_kill \<and> trk s = T_select
        then Some (s\<lparr>main := M_returned, trk := T_close_all (connections (tracker s))\<rparr>)
        else None)"
    by (simp add: deliver_def)
  {
    assume c: "trk s = T_close_all cs"
    then show "step srv (Tracker_close Close) s
          = Some (s\<lparr>trk := T_returned, trace := trace s @ [Conn_Close cs]\<rparr>)"
      by (simp add: tracker_close_def)
    fix l s'
    assume st: "step srv l s = Some s'" and n: "\<forall>C. l \<noteq> Tracker_close C"
    from c have "trk s \<noteq> T_select" by simp
    from tracker_idle [OF this st] n c
    show "trk s' = T_close_all cs" and "tracker s' = tracker s"
      by auto
  }
  fix s1 ls s2
  assume a: "step srv Kill_rendezvous s = Some s1" and r: "run srv ls s1 = Some s2"
  let ?cs = "connections (tracker s)"
  let ?tr = "filter is_Conn_Close (trace s)"
  from a k have "kill_received (err s) ?cs ?tr s1"
    by (auto simp: kill_received_def split: if_splits)
  from run_kill_received [OF this r] have kr: "kill_received (err s) ?cs ?tr s2" .
  then show "main s2 = M_returned" and "err s2 = err s"
    by (simp_all add: kill_received_def)
  from kr show "step srv Done_rendezvous s2 = None"
    by (simp add: kill_received_def)
  from kr show "if trk s2 = T_returned
          then filter is_Conn_Close (trace s2) = ?tr @ [Conn_Close ?cs]
          else trk s2 = T_close_all ?cs \<and> filter is_Conn_Close (trace s2) = ?tr"
    by (auto simp: kill_received_def)
qed

text \<open>
  The theorem at the draining state after the timer has fired, with connection 1
  tracked and every \<^verbatim>\<open>k.Close()\<close> failing.
\<close>

theorem C4_kill_witness:
  "step srv_test Kill_rendezvous (st_wait\<lparr>main := M_send_kill\<rparr>)
     = Some (st_wait\<lparr>main := M_returned, trk := T_close_all {1}\<rparr>)
   \<and> step srv_test (Tracker_close (\<lambda>k. Some ''use of closed network connection''))
        (st_wait\<lparr>main := M_returned, trk := T_close_all {1}\<rparr>)
       = Some (st_wait\<lparr>main := M_returned, trk := T_returned,
                        trace := trace st_wait @ [Conn_Close {1}]\<rparr>)
   \<and> err (st_wait\<lparr>main := M_returned, trk := T_returned,
                  trace := trace st_wait @ [Conn_Close {1}]\<rparr>) = Some ''accept''
   \<and> step srv_test Done_rendezvous
        (st_wait\<lparr>main := M_returned, trk := T_returned,
                  trace := trace st_wait @ [Conn_Close {1}]\<rparr>) = None"
proof -
  let ?Close = "\<lambda>k :: conn. Some ''use of closed network connection''"
  let ?s0 = "st_wait\<lparr>main := M_send_kill\<rparr>"
  let ?s1 = "st_wait\<lparr>main := M_returned, trk := T_close_all {1}\<rparr>"
  let ?s2 = "st_wait\<lparr>main := M_returned, trk := T_returned,
                        trace := trace st_wait @ [Conn_Close {1}]\<rparr>"
  have t: "trk ?s1 = T_close_all {1}"
    by simp
  note c4 = C4_kill [where s = ?s0 and srv = srv_test and t = "tracker st_wait"
      and cs = "{1}" and Close = ?Close]
  from c4 have "step srv_test Kill_rendezvous ?s0 =
       (if main ?s0 = M_send_kill \<and> trk ?s0 = T_select
        then Some (?s0\<lparr>main := M_returned, trk := T_close_all (connections (tracker ?s0))\<rparr>)
        else None)"
    by (elim conjE)
  then have k: "step srv_test Kill_rendezvous ?s0 = Some ?s1"
    by (simp add: st_wait_def)
  from c4 have c: "\<forall>s1 ls s2. step srv_test Kill_rendezvous ?s0 = Some s1 \<longrightarrow>
         run srv_test ls s1 = Some s2 \<longrightarrow>
         main s2 = M_returned \<and> err s2 = err ?s0 \<and> step srv_test Done_rendezvous s2 = None \<and>
         (if trk s2 = T_returned
          then filter is_Conn_Close (trace s2)
                 = filter is_Conn_Close (trace ?s0) @ [Conn_Close (connections (tracker ?s0))]
          else trk s2 = T_close_all (connections (tracker ?s0)) \<and>
               filter is_Conn_Close (trace s2) = filter is_Conn_Close (trace ?s0))"
    by (elim conjE)
  from C4_kill [where s = ?s1 and srv = srv_test and cs = "{1}" and Close = ?Close
      and t = "tracker st_wait"]
  have "trk ?s1 = T_close_all {1} \<longrightarrow>
        step srv_test (Tracker_close ?Close) ?s1
          = Some (?s1\<lparr>trk := T_returned, trace := trace ?s1 @ [Conn_Close {1}]\<rparr>) \<and>
        (\<forall>l s'. step srv_test l ?s1 = Some s' \<longrightarrow> (\<forall>C. l \<noteq> Tracker_close C) \<longrightarrow>
           trk s' = T_close_all {1} \<and> tracker s' = tracker ?s1)"
    by (elim conjE)
  with t have x: "step srv_test (Tracker_close ?Close) ?s1 = Some ?s2"
    by simp
  then have r: "run srv_test [Tracker_close ?Close] ?s1 = Some ?s2"
    by simp
  from c k r have "err ?s2 = err ?s0" and d: "step srv_test Done_rendezvous ?s2 = None"
    by blast+
  then have "err ?s2 = Some ''accept''"
    by (simp add: st_wait_def)
  with k x d show ?thesis by (intro conjI)
qed

subsection \<open>C5: who closes the listener, and the watcher's teardown\<close>

text \<open>
  C5 (as amended). On every schedule, whichever of the signal channel, the cancel
  channel and the closed \<^verbatim>\<open>stopListener\<close> fire and in whatever order: the watcher
  closes the listener at most once and no other step of Serve's own goroutines closes
  it, while net/http closes it once more when its serve loop returns, and not before;
  keep-alives are disabled at most once, \<^verbatim>\<open>signal.Stop\<close> is called at most once and
  \<^verbatim>\<open>sig\<close> is closed at most once; and once the watcher has returned it has closed the
  listener exactly once, disabled keep-alives exactly once, and run the signal teardown
  exactly once if \<^verbatim>\<open>sig\<close> is not nil and not at all if it is nil (only Cancel
  supplied).
\<close>

theorem C5_teardown_once:
  assumes "run srv ls (init srv) = Some s"
  shows "count_list (trace s) Listener_Close \<le> 1
       \<and> count_list (trace s) Http_Serve_Close = (if main s = M_Serve then 0 else 1)
       \<and> (\<forall>l s'. step srv l s = Some s' \<longrightarrow> l \<noteq> Watcher_step \<longrightarrow>
            count_list (trace s') Listener_Close = count_list (trace s) Listener_Close)
       \<and> count_list (trace s) SetKeepAlivesEnabled_false \<le> 1
       \<and> count_list (trace s) Signal_Stop \<le> 1
       \<and> count_list (trace s) (Close_chan Ch_sig) \<le> 1
       \<and> (watcher s = W_returned \<longrightarrow>
            count_list (trace s) Listener_Close = 1 \<and>
            count_list (trace s) SetKeepAlivesEnabled_false = 1 \<and>
            count_list (trace s) Signal_Stop = (if sig_in_use srv then 1 else 0) \<and>
            count_list (trace s) (Close_chan Ch_sig) = (if sig_in_use srv then 1 else 0))"
proof -
  from run_watcher_inv [OF assms]
  have f: "filter by_watcher (trace s) = watcher_events srv (watcher s)"
    by (simp add: watcher_inv_def)
  have c: "count_list (trace s) e = count_list (watcher_events srv (watcher s)) e"
    if "by_watcher e" for e
    using count_list_filter [of by_watcher e "trace s", OF that] f by simp
  have 1: "count_list (trace s) Listener_Close \<le> 1"
    by (cases "watcher s") (simp_all add: c teardown_sig_def)
  have 2: "count_list (trace s) SetKeepAlivesEnabled_false \<le> 1"
    by (cases "watcher s") (simp_all add: c teardown_sig_def)
  have 3: "count_list (trace s) Signal_Stop \<le> 1"
    by (cases "watcher s") (simp_all add: c teardown_sig_def)
  have 4: "count_list (trace s) (Close_chan Ch_sig) \<le> 1"
    by (cases "watcher s") (simp_all add: c teardown_sig_def)
  have 5: "count_list (trace s) Listener_Close = 1 \<and>
            count_list (trace s) SetKeepAlivesEnabled_false = 1 \<and>
            count_list (trace s) Signal_Stop = (if sig_in_use srv then 1 else 0) \<and>
            count_list (trace s) (Close_chan Ch_sig) = (if sig_in_use srv then 1 else 0)"
    if "watcher s = W_returned"
    using that by (simp add: c teardown_sig_def)
  have 6: "count_list (trace s') Listener_Close = count_list (trace s) Listener_Close"
    if "step srv l s = Some s'" "l \<noteq> Watcher_step" for l s'
    using step_trace_other [OF that] by auto
  have "served (init srv)"
    by (simp add: served_def init_def)
  with run_invariant [of served srv "init srv" ls s] step_served assms have "served s"
    by blast
  then have 7: "count_list (trace s) Http_Serve_Close = (if main s = M_Serve then 0 else 1)"
    by (simp add: served_def)
  from 1 2 3 4 5 6 7 show ?thesis by blast
qed

text \<open>
  The theorem on a schedule of the server with both channels on which the signal and
  the cancel both fire before the watcher runs.
\<close>

theorem C5_teardown_once_witness:
  "run srv_both [Os_signal, Caller_cancel, Watcher_select Src_cancel,
                 Watcher_step, Watcher_step, Watcher_step, Watcher_step] (init srv_both)
     = Some st_both
   \<and> watcher st_both = W_returned
   \<and> count_list (trace st_both) Listener_Close = 1
   \<and> count_list (trace st_both) Http_Serve_Close = 0
   \<and> count_list (trace st_both) SetKeepAlivesEnabled_false = 1
   \<and> count_list (trace st_both) Signal_Stop = 1
   \<and> count_list (trace st_both) (Close_chan Ch_sig) = 1"
proof -
  have r: "run srv_both [Os_signal, Caller_cancel, Watcher_select Src_cancel,
                 Watcher_step, Watcher_step, Watcher_step, Watcher_step] (init srv_both)
     = Some st_both"
    by (simp add: srv_both_def init_def st_both_def watcher_step_def sig_in_use_def)
  have w: "watcher st_both = W_returned" and m: "main st_both = M_Serve"
    by (simp_all add: st_both_def)
  have "sig_in_use srv_both"
    by (simp add: sig_in_use_def srv_both_def)
  with C5_teardown_once [OF r] w m r show ?thesis
    by simp
qed

text \<open>
  The claim as stated fails twice. On the first schedule a signal arrives, the watcher
  closes the listener and the serve loop returns: the listener has been closed twice,
  once by the watcher and once by net/http. On the second only Cancel is supplied: the
  watcher runs to its end and neither \<^verbatim>\<open>signal.Stop\<close> nor \<^verbatim>\<open>close(sig)\<close> has run.
\<close>

theorem C5_two_closes_no_signal_teardown:
  "run srv_test [Os_signal, Watcher_select Src_sig, Watcher_step, Watcher_step, Watcher_step,
                 Watcher_step, Engine_returns (Some ''accept'')] (init srv_test)
     = Some st_twice
   \<and> count_list (trace st_twice) Listener_Close = 1
   \<and> count_list (trace st_twice) Http_Serve_Close = 1
   \<and> run srv_cancel [Caller_cancel, Watcher_select Src_cancel, Watcher_step, Watcher_step]
        (init srv_cancel) = Some st_cancelled
   \<and> watcher st_cancelled = W_returned
   \<and> count_list (trace st_cancelled) Signal_Stop = 0
   \<and> count_list (trace st_cancelled) (Close_chan Ch_sig) = 0"
  by (simp add: srv_test_def srv_cancel_def init_def st_twice_def st_cancelled_def
      watcher_step_def sig_in_use_def)

subsection \<open>C6: the ConnState hook\<close>

text \<open>
  While the tracker is in its loop the hook does what the claim says: for an event
  that needs forwarding the message reaches the tracker first, and then the observer,
  if there is one, is called with the same connection and state.
\<close>

lemma hook_forwards_then_calls:
  assumes "i < length (hooks s)" "hooks s ! i = (c, st, H_switch)" "forward st c = Some m"
    "trk s = T_select"
  shows "\<exists>s1 s2. step srv (Hook_send i) s = Some s1 \<and> step srv (Hook_step i) s1 = Some s2 \<and>
           s1 = deliver m (s\<lparr>hooks := (hooks s)[i := (c, st, H_hook)]\<rparr>) \<and>
           trace s2 = (if ConnState srv then trace s1 @ [Hook_called c st] else trace s1)"
  using assms by (simp add: hook_send_def hook_step_def)

text \<open>
  C6. The claim asks that the observer be called for every state change net/http
  reports. On the kill schedule it is not: the timeout has fired and the tracker has
  returned, net/http reports connection 1 closed, the hook stands at
  \<^verbatim>\<open>remove <- conn\<close> (line 144) with nobody left to receive, and on every continuation
  it stays there and the observer is never called with (1, StateClosed), although an
  observer is installed.
\<close>

theorem C6_observer_never_called:
  "ConnState srv_test
   \<and> run srv_test kill_schedule (init srv_test) = Some st_killed
   \<and> hooks st_killed ! 2 = (1, StateClosed, H_switch)
   \<and> step srv_test (Hook_send 2) st_killed = None
   \<and> step srv_test (Hook_step 2) st_killed = None
   \<and> (\<forall>ls s. run srv_test ls st_killed = Some s \<longrightarrow>
         hooks s ! 2 = (1, StateClosed, H_switch) \<and> Hook_called 1 StateClosed \<notin> set (trace s))"
proof (intro conjI allI impI)
  show "ConnState srv_test"
    by (simp add: srv_test_def)
  show "run srv_test kill_schedule (init srv_test) = Some st_killed"
    by (simp add: srv_test_def kill_schedule_def init_def st_killed_def hook_send_def
        hook_step_def watcher_step_def tracker_close_def deliver_def main_done_def
        sig_in_use_def)
  show "hooks st_killed ! 2 = (1, StateClosed, H_switch)"
    by (simp add: st_killed_def)
  show "step srv_test (Hook_send 2) st_killed = None"
    by (simp add: st_killed_def hook_send_def)
  show "step srv_test (Hook_step 2) st_killed = None"
    by (simp add: st_killed_def hook_step_def)
next
  fix ls s
  assume r: "run srv_test ls st_killed = Some s"
  have f: "forward StateClosed 1 = Some (Remove 1)"
    by simp
  have "hook_blocked 2 1 StateClosed st_killed"
    by (auto simp: hook_blocked_def st_killed_def)
  with run_invariant [of "hook_blocked 2 1 StateClosed" srv_test st_killed ls s]
    step_hook_blocked [OF f] r
  have "hook_blocked 2 1 StateClosed s"
    by blast
  then show "hooks s ! 2 = (1, StateClosed, H_switch)"
    and "Hook_called 1 StateClosed \<notin> set (trace s)"
    by (simp_all add: hook_blocked_def)
qed

text \<open>
  The theorem on a continuation in which a new connection 2 is reported: its hook runs
  through and the observer is called for it, while the hook of connection 1 stays where
  it is.
\<close>

theorem C6_observer_never_called_witness:
  "run srv_test [Engine_event 2 StateNew, Hook_step 3, Hook_step 3] st_killed
     = Some (st_killed\<lparr>hooks := hooks st_killed @ [(2, StateNew, H_returned)],
                       trace := trace st_killed @ [Hook_called 2 StateNew]\<rparr>)
   \<and> hooks (st_killed\<lparr>hooks := hooks st_killed @ [(2, StateNew, H_returned)],
                       trace := trace st_killed @ [Hook_called 2 StateNew]\<rparr>) ! 2
       = (1, StateClosed, H_switch)
   \<and> Hook_called 1 StateClosed
       \<notin> set (trace (st_killed\<lparr>hooks := hooks st_killed @ [(2, StateNew, H_returned)],
                                 trace := trace st_killed @ [Hook_called 2 StateNew]\<rparr>))"
proof -
  let ?s = "st_killed\<lparr>hooks := hooks st_killed @ [(2, StateNew, H_returned)],
                       trace := trace st_killed @ [Hook_called 2 StateNew]\<rparr>"
  have r: "run srv_test [Engine_event 2 StateNew, Hook_step 3, Hook_step 3] st_killed = Some ?s"
    by (simp add: st_killed_def srv_test_def hook_step_def)
  from C6_observer_never_called have
    "\<forall>ls s. run srv_test ls st_killed = Some s \<longrightarrow>
         hooks s ! 2 = (1, StateClosed, H_switch) \<and> Hook_called 1 StateClosed \<notin> set (trace s)"
    by (elim conjE)
  with r have "hooks ?s ! 2 = (1, StateClosed, H_switch)"
    and "Hook_called 1 StateClosed \<notin> set (trace ?s)"
    by blast+
  with r show ?thesis by (intro conjI)
qed

subsection \<open>C7: the watcher when Serve returns\<close>

text \<open>
  C7 (as amended). On every schedule, when Serve has returned \<^verbatim>\<open>stopListener\<close> is
  closed, so the watcher is not blocked: from wherever it stands it runs to its end in
  at most five steps of its own, needing no other goroutine. Serve does not wait for
  it.
\<close>

theorem C7_watcher_released:
  assumes "run srv ls (init srv) = Some s" "main s = M_returned"
  shows "stopListener_closed s
       \<and> (\<exists>s'. run srv (watcher_rest srv (watcher s)) s = Some s' \<and> watcher s' = W_returned)
       \<and> length (watcher_rest srv (watcher s)) \<le> 5"
proof -
  have "released (init srv)"
    by (simp add: released_def init_def)
  with run_invariant [of released srv "init srv" ls s] step_released assms(1)
  have "released s" by blast
  with assms(2) have c: "stopListener_closed s"
    by (simp add: released_def)
  have "\<exists>s'. run srv (watcher_rest srv (watcher s)) s = Some s' \<and> watcher s' = W_returned"
    using c by (cases "watcher s") (simp_all add: watcher_step_def)
  moreover have "length (watcher_rest srv (watcher s)) \<le> 5"
    by (cases "watcher s") simp_all
  ultimately show ?thesis using c by blast
qed

text \<open>
  The theorem on the schedule where the serve loop ends by itself and the drain
  completes at once.
\<close>

theorem C7_watcher_released_witness:
  "run srv_test [Engine_returns (Some ''accept''), Main_step, Stop_rendezvous, Done_rendezvous]
     (init srv_test) = Some st_returned
   \<and> main st_returned = M_returned
   \<and> stopListener_closed st_returned
   \<and> run srv_test (watcher_rest srv_test (watcher st_returned)) st_returned
       = Some (st_returned\<lparr>watcher := W_returned, sig_closed := True,
                 trace := trace st_returned @
                   [Signal_Stop, Close_chan Ch_sig, SetKeepAlivesEnabled_false,
                    Listener_Close]\<rparr>)"
proof -
  have r: "run srv_test [Engine_returns (Some ''accept''), Main_step, Stop_rendezvous,
      Done_rendezvous] (init srv_test) = Some st_returned"
    by (simp add: srv_test_def init_def st_returned_def deliver_def main_done_def)
  have m: "main st_returned = M_returned"
    by (simp add: st_returned_def)
  from C7_watcher_released [OF r m] have "stopListener_closed st_returned"
    by simp
  moreover have "run srv_test (watcher_rest srv_test (watcher st_returned)) st_returned
       = Some (st_returned\<lparr>watcher := W_returned, sig_closed := True,
                 trace := trace st_returned @
                   [Signal_Stop, Close_chan Ch_sig, SetKeepAlivesEnabled_false,
                    Listener_Close]\<rparr>)"
    by (simp add: st_returned_def srv_test_def sig_in_use_def watcher_step_def)
  ultimately show ?thesis using r m by simp
qed

text \<open>
  The claim as stated fails: on that schedule Serve has returned while the watcher
  still stands at its \<^verbatim>\<open>select\<close> and has not closed the listener.
\<close>

theorem C7_watcher_not_terminated:
  "run srv_test [Engine_returns (Some ''accept''), Main_step, Stop_rendezvous, Done_rendezvous]
     (init srv_test) = Some st_returned
   \<and> main st_returned = M_returned
   \<and> watcher st_returned = W_select
   \<and> watcher st_returned \<noteq> W_returned
   \<and> count_list (trace st_returned) Listener_Close = 0"
  by (simp add: srv_test_def init_def st_returned_def deliver_def main_done_def)

subsection \<open>C8: ListenAndServeTLS\<close>

text \<open>
  C8. When the key pair does not load, ListenAndServeTLS returns the load error having
  made no call but the load: no listener is opened and Serve is not called. When the
  pair loads and the listener opens, the configuration given to the TLS listener and to
  Serve is the server's own with the loaded certificate, and its \<^verbatim>\<open>NextProtos\<close> is
  \<^verbatim>\<open>["http/1.1"]\<close> whenever the server's configuration is nil or has a nil
  \<^verbatim>\<open>NextProtos\<close>, and the server's own list otherwise.
\<close>

theorem C8_ListenAndServeTLS:
  "(LoadX509KeyPair w certFile keyFile = Inl e \<longrightarrow>
      ListenAndServeTLS w server certFile keyFile timeout
        = ([Call_LoadX509KeyPair certFile keyFile], Return e))
   \<and> (LoadX509KeyPair w certFile keyFile = Inr cert \<and>
       Listen w ''tcp'' (if Addr server = [] then '':https'' else Addr server) = Inr l \<longrightarrow>
      (\<exists>srv config.
         ListenAndServeTLS w server certFile keyFile timeout
           = ([Call_LoadX509KeyPair certFile keyFile,
               Call_Listen ''tcp'' (if Addr server = [] then '':https'' else Addr server),
               Call_NewListener l config, Call_Serve srv l config], Return_Serve)
         \<and> Certificates config = [cert]
         \<and> NextProtos config =
             (case TLSConfig server of
                None \<Rightarrow> Some [''http/1.1'']
              | Some c \<Rightarrow> (case NextProtos c of None \<Rightarrow> Some [''http/1.1'']
                           | Some ps \<Rightarrow> Some ps))))"
  by (auto simp: ListenAndServeTLS_def Let_def split: option.splits)

text \<open>
  The theorem in a world where the key pair does not load, and in one where everything
  works and the server has no TLS configuration.
\<close>

theorem C8_ListenAndServeTLS_witness:
  "LoadX509KeyPair world_bad_cert ''cert.pem'' ''key.pem'' = Inl ''no such file''
   \<and> ListenAndServeTLS world_bad_cert \<lparr>Addr = '':3000'', TLSConfig = None\<rparr>
        ''cert.pem'' ''key.pem'' 0
       = ([Call_LoadX509KeyPair ''cert.pem'' ''key.pem''], Return ''no such file'')
   \<and> ListenAndServeTLS world_ok \<lparr>Addr = [], TLSConfig = None\<rparr> ''cert.pem'' ''key.pem'' 0
       = ([Call_LoadX509KeyPair ''cert.pem'' ''key.pem'', Call_Listen ''tcp'' '':https'',
           Call_NewListener 7
             \<lparr>NextProtos = Some [''http/1.1''], Certificates = [3], other_fields = 0\<rparr>,
           Call_Serve \<lparr>Timeout = 0, ConnState = False, Signal = False, Cancel = False\<rparr> 7
             \<lparr>NextProtos = Some [''http/1.1''], Certificates = [3], other_fields = 0\<rparr>],
          Return_Serve)"
proof -
  have b: "LoadX509KeyPair world_bad_cert ''cert.pem'' ''key.pem'' = Inl ''no such file''"
    by (simp add: world_bad_cert_def)
  from C8_ListenAndServeTLS [where w = world_bad_cert and certFile = "''cert.pem''"
      and keyFile = "''key.pem''" and e = "''no such file''"
      and server = "\<lparr>Addr = '':3000'', TLSConfig = None\<rparr>" and timeout = 0] b
  have 1: "ListenAndServeTLS world_bad_cert \<lparr>Addr = '':3000'', TLSConfig = None\<rparr>
        ''cert.pem'' ''key.pem'' 0
       = ([Call_LoadX509KeyPair ''cert.pem'' ''key.pem''], Return ''no such file'')"
    by blast
  have 2: "ListenAndServeTLS world_ok \<lparr>Addr = [], TLSConfig = None\<rparr> ''cert.pem'' ''key.pem'' 0
       = ([Call_LoadX509KeyPair ''cert.pem'' ''key.pem'', Call_Listen ''tcp'' '':https'',
           Call_NewListener 7
             \<lparr>NextProtos = Some [''http/1.1''], Certificates = [3], other_fields = 0\<rparr>,
           Call_Serve \<lparr>Timeout = 0, ConnState = False, Signal = False, Cancel = False\<rparr> 7
             \<lparr>NextProtos = Some [''http/1.1''], Certificates = [3], other_fields = 0\<rparr>],
          Return_Serve)"
  proof -
    have "LoadX509KeyPair world_ok ''cert.pem'' ''key.pem'' = Inr 3 \<and>
        Listen world_ok ''tcp''
          (if Addr \<lparr>Addr = [], TLSConfig = None\<rparr> = [] then '':https''
           else Addr \<lparr>Addr = [], TLSConfig = None\<rparr>) = Inr 7"
      by (simp add: world_ok_def)
    with C8_ListenAndServeTLS [where w = world_ok and certFile = "''cert.pem''"
        and keyFile = "''key.pem''" and cert = 3 and l = 7
        and server = "\<lparr>Addr = [], TLSConfig = None\<rparr>" and timeout = 0]
    obtain srv config where
      "ListenAndServeTLS world_ok \<lparr>Addr = [], TLSConfig = None\<rparr> ''cert.pem'' ''key.pem'' 0
         = ([Call_LoadX509KeyPair ''cert.pem'' ''key.pem'',
             Call_Listen ''tcp''
               (if Addr \<lparr>Addr = [], TLSConfig = None\<rparr> = [] then '':https''
                else Addr \<lparr>Addr = [], TLSConfig = None\<rparr>),
             Call_NewListener 7 config, Call_Serve srv 7 config], Return_Serve)"
      by blast
    then show ?thesis
      by (simp add: ListenAndServeTLS_def world_ok_def Let_def)
  qed
  from b 1 2 show ?thesis by simp
qed

subsection \<open>C9: a timeout that is not positive\<close>

text \<open>
  C9. A server whose Timeout is zero or negative behaves on every schedule exactly as
  the same server with Timeout 0: the timer step is never enabled, Serve never stands
  at the kill send, no connection is ever force-closed, and the only step that takes
  Serve out of the wait is the receive from \<^verbatim>\<open>done\<close>.
\<close>

theorem C9_nonpositive_timeout:
  assumes "sint (Timeout srv) \<le> 0"
  shows "run (srv\<lparr>Timeout := 0\<rparr>) ls (init (srv\<lparr>Timeout := 0\<rparr>)) = run srv ls (init srv)
       \<and> step srv Timer s = None
       \<and> (\<forall>s'. run srv ls (init srv) = Some s' \<longrightarrow>
             main s' \<noteq> M_send_kill \<and> (\<forall>cs. Conn_Close cs \<notin> set (trace s')) \<and>
             (main s' = M_wait_done \<longrightarrow>
                (\<forall>l s''. step srv l s' = Some s'' \<longrightarrow> l \<noteq> Done_rendezvous \<longrightarrow> main s'' = M_wait_done)))"
proof (intro conjI allI impI)
  have "init (srv\<lparr>Timeout := 0\<rparr>) = init srv"
    by (simp add: init_def)
  then show "run (srv\<lparr>Timeout := 0\<rparr>) ls (init (srv\<lparr>Timeout := 0\<rparr>)) = run srv ls (init srv)"
    by (simp add: run_Timeout_nonpos [OF assms])
  show "step srv Timer s = None"
    using assms by simp
next
  fix s'
  assume r: "run srv ls (init srv) = Some s'"
  have "never_killed (init srv)"
    by (simp add: never_killed_def init_def)
  then have nk: "never_killed s'"
    using run_invariant [of never_killed srv "init srv" ls s'] step_never_killed [OF assms] r
    by blast
  then show "main s' \<noteq> M_send_kill" and "\<And>cs. Conn_Close cs \<notin> set (trace s')"
    by (simp_all add: never_killed_def)
  fix l s''
  assume "main s' = M_wait_done" "step srv l s' = Some s''" "l \<noteq> Done_rendezvous"
  with step_main [of srv l s' s''] assms show "main s'' = M_wait_done"
    by (cases l) (auto split: if_splits)
qed

text \<open>The theorem for Timeout = -1, draining with connection 1 active.\<close>

theorem C9_nonpositive_timeout_witness:
  "sint (Timeout srv_negative) \<le> 0
   \<and> run srv_negative [Engine_event 1 StateActive, Hook_send 0, Engine_returns None,
                        Main_step, Stop_rendezvous] (init srv_negative) = Some st_negative
   \<and> run (srv_negative\<lparr>Timeout := 0\<rparr>)
         [Engine_event 1 StateActive, Hook_send 0, Engine_returns None,
          Main_step, Stop_rendezvous] (init (srv_negative\<lparr>Timeout := 0\<rparr>)) = Some st_negative
   \<and> main st_negative = M_wait_done
   \<and> step srv_negative Timer st_negative = None"
proof -
  have t: "sint (Timeout srv_negative) \<le> 0"
    by (simp add: srv_negative_def)
  have r: "run srv_negative [Engine_event 1 StateActive, Hook_send 0, Engine_returns None,
                        Main_step, Stop_rendezvous] (init srv_negative) = Some st_negative"
    by (simp add: srv_negative_def init_def st_negative_def hook_send_def deliver_def
        main_done_def)
  have m: "main st_negative = M_wait_done"
    by (simp add: st_negative_def)
  note c9 = C9_nonpositive_timeout [OF t, of "[Engine_event 1 StateActive, Hook_send 0,
      Engine_returns None, Main_step, Stop_rendezvous]" st_negative]
  from c9 have "run (srv_negative\<lparr>Timeout := 0\<rparr>)
         [Engine_event 1 StateActive, Hook_send 0, Engine_returns None,
          Main_step, Stop_rendezvous] (init (srv_negative\<lparr>Timeout := 0\<rparr>))
      = run srv_negative [Engine_event 1 StateActive, Hook_send 0, Engine_returns None,
                        Main_step, Stop_rendezvous] (init srv_negative)"
    by (rule conjunct1)
  moreover from c9 have "step srv_negative Timer st_negative = None"
    by (rule conjunct2 [THEN conjunct1])
  ultimately show ?thesis
    using t r m by (intro conjI) (simp_all only:)
qed

subsection \<open>C10: which channels the watcher closes\<close>

text \<open>
  C10. A caller-supplied Signal channel is the \<^verbatim>\<open>sig\<close> of the watcher. Whenever
  \<^verbatim>\<open>sig\<close> is not nil and the watcher's \<^verbatim>\<open>select\<close> fires, on whichever of its three
  cases, its next two steps call \<^verbatim>\<open>signal.Stop(sig)\<close> and then \<^verbatim>\<open>close(sig)\<close>. On
  every schedule the Cancel channel is never closed by Serve, and once the watcher is
  past the teardown the log holds exactly one \<^verbatim>\<open>signal.Stop\<close> followed by exactly
  one \<^verbatim>\<open>close(sig)\<close>.
\<close>

theorem C10_signal_channel_closed:
  "(Signal srv \<longrightarrow> sig_in_use srv)
   \<and> (sig_in_use srv \<and> watcher s = W_select \<and> ready srv src s \<longrightarrow>
        run srv [Watcher_select src, Watcher_step, Watcher_step] s =
          Some (s\<lparr>watcher := W_SetKeepAlivesEnabled,
                 sig_ready := (if src = Src_sig then False else sig_ready s),
                 sig_closed := True,
                 trace := trace s @ [Signal_Stop, Close_chan Ch_sig]\<rparr>))
   \<and> (run srv ls (init srv) = Some r \<longrightarrow>
        Close_chan Ch_cancel \<notin> set (trace r) \<and>
        (sig_in_use srv \<and> (watcher r = W_SetKeepAlivesEnabled \<or> watcher r = W_listener_Close \<or>
            watcher r = W_returned) \<longrightarrow>
           filter (\<lambda>e. e = Signal_Stop \<or> e = Close_chan Ch_sig) (trace r) =
             [Signal_Stop, Close_chan Ch_sig]))"
proof (intro conjI impI)
  show "sig_in_use srv" if "Signal srv"
    using that by (simp add: sig_in_use_def)
next
  assume "sig_in_use srv \<and> watcher s = W_select \<and> ready srv src s"
  then show "run srv [Watcher_select src, Watcher_step, Watcher_step] s =
          Some (s\<lparr>watcher := W_SetKeepAlivesEnabled,
                 sig_ready := (if src = Src_sig then False else sig_ready s),
                 sig_closed := True,
                 trace := trace s @ [Signal_Stop, Close_chan Ch_sig]\<rparr>)"
    by (simp add: watcher_step_def)
next
  assume r: "run srv ls (init srv) = Some r"
  from run_watcher_inv [OF r] show "Close_chan Ch_cancel \<notin> set (trace r)"
    by (auto simp: watcher_inv_def)
  assume a: "sig_in_use srv \<and> (watcher r = W_SetKeepAlivesEnabled \<or> watcher r = W_listener_Close \<or>
            watcher r = W_returned)"
  let ?Q = "\<lambda>e. e = Signal_Stop \<or> e = Close_chan Ch_sig"
  have "filter ?Q (trace r) = filter ?Q (filter by_watcher (trace r))"
    by (rule filter_filter_sub [symmetric]) auto
  also have "\<dots> = filter ?Q (watcher_events srv (watcher r))"
    using run_watcher_inv [OF r] by (simp add: watcher_inv_def)
  also have "\<dots> = [Signal_Stop, Close_chan Ch_sig]"
    using a by (auto simp: teardown_sig_def)
  finally show "filter ?Q (trace r) = [Signal_Stop, Close_chan Ch_sig]" .
qed

text \<open>The theorem for the test server, whose Signal channel the caller supplies.\<close>

theorem C10_signal_channel_closed_witness:
  "Signal srv_test \<and> sig_in_use srv_test
   \<and> run srv_test [Os_signal, Watcher_select Src_sig, Watcher_step, Watcher_step]
        (init srv_test) = Some st_sig
   \<and> trace st_sig = [Signal_Stop, Close_chan Ch_sig]
   \<and> sig_closed st_sig
   \<and> Close_chan Ch_cancel \<notin> set (trace st_sig)"
proof -
  note c10 = C10_signal_channel_closed [where srv = srv_test
      and s = "(init srv_test)\<lparr>sig_ready := True\<rparr>" and src = Src_sig
      and ls = "[Os_signal, Watcher_select Src_sig, Watcher_step, Watcher_step]" and r = st_sig]
  have 1: "Signal srv_test"
    by (simp add: srv_test_def)
  with c10 have 2: "sig_in_use srv_test"
    by blast
  have 3: "watcher ((init srv_test)\<lparr>sig_ready := True\<rparr>) = W_select \<and>
      ready srv_test Src_sig ((init srv_test)\<lparr>sig_ready := True\<rparr>)"
    using 2 by (simp add: init_def)
  have 4: "step srv_test Os_signal (init srv_test) = Some ((init srv_test)\<lparr>sig_ready := True\<rparr>)"
    using 2 by (simp add: init_def)
  from c10 2 3 have "run srv_test [Watcher_select Src_sig, Watcher_step, Watcher_step]
      ((init srv_test)\<lparr>sig_ready := True\<rparr>) = Some st_sig"
    by (simp add: init_def st_sig_def srv_test_def)
  with 4 have r: "run srv_test [Os_signal, Watcher_select Src_sig, Watcher_step, Watcher_step]
        (init srv_test) = Some st_sig"
    by simp
  with c10 have "Close_chan Ch_cancel \<notin> set (trace st_sig)"
    by blast
  with 1 2 r show ?thesis
    by (simp add: st_sig_def)
qed

end
